(* ===== verification/Prelude.thy ===== *)
theory Prelude
  imports Main "HOL-Library.Word"
begin

text \<open>
  The vocabulary every component shares: Python byte strings and text, the exceptions the
  sources raise and the results that carry them, big-endian integers, slices and searches,
  and the contract of a self-delimiting encoding (\<open>prefix_codec\<close>), which the packet
  framing, the FastCGI name/value pairs and records, the HPACK fields and the HTTP/2 frames
  all satisfy.

  A byte is a \<open>char\<close>: Isabelle's characters are exactly the 256 values of a byte, so a
  Python \<open>bytes\<close> object is a \<open>char list\<close> and a literal of the source stays readable.
  A Python \<open>str\<close> is a list of Unicode code points.
\<close>

unbundle bit_operations_syntax

text \<open>Offsets stay sums, as the sources write them.\<close>

declare add_2_eq_Suc [simp del] add_2_eq_Suc' [simp del]

section \<open>Bytes, text and results\<close>

type_synonym bytes = "char list"
type_synonym pystr = "nat list"

text \<open>The exceptions the sources raise or let escape; the message is the source's own.\<close>

datatype py_error =
    ValueError string
  | OverflowError
  | EOFError
  | ConnectionError string
  | SocketTimeout
  | OSError
  | AssertionError
  | IndexError
  | SystemExit string

type_synonym 'a res = "py_error + 'a"

text \<open>\<open>ord\<close> of a byte and the one-byte string of a number below 256.\<close>

abbreviation byte_val :: "char \<Rightarrow> nat" where
  "byte_val c \<equiv> of_char c"

abbreviation mk_byte :: "nat \<Rightarrow> char" where
  "mk_byte n \<equiv> char_of n"

text \<open>\<open>bytes((n,))\<close>: a value outside a byte is a \<open>ValueError\<close>.\<close>

definition byte1 :: "nat \<Rightarrow> bytes res" where
  "byte1 n = (if n < 256 then Inr [mk_byte n]
              else Inl (ValueError ''bytes must be in range(0, 256)''))"

text \<open>Sequencing of fallible computations: the first error is the result.\<close>

definition res_bind :: "'a res \<Rightarrow> ('a \<Rightarrow> 'b res) \<Rightarrow> 'b res" where
  "res_bind m f = (case m of Inl e \<Rightarrow> Inl e | Inr x \<Rightarrow> f x)"

fun res_map :: "('a \<Rightarrow> 'b res) \<Rightarrow> 'a list \<Rightarrow> 'b list res" where
  "res_map f [] = Inr []"
| "res_map f (x # xs) =
     res_bind (f x) (\<lambda>y. res_bind (res_map f xs) (\<lambda>ys. Inr (y # ys)))"

definition res_ok :: "'a res \<Rightarrow> bool" where
  "res_ok r = (case r of Inl _ \<Rightarrow> False | Inr _ \<Rightarrow> True)"

lemma res_bind_simps [simp]:
  "res_bind (Inl e) f = Inl e"
  "res_bind (Inr x) f = f x"
  by (simp_all add: res_bind_def)

lemma res_bind_Inr_iff [simp]:
  "res_bind m f = Inr y \<longleftrightarrow> (\<exists>x. m = Inr x \<and> f x = Inr y)"
  by (cases m) auto

lemma res_ok_simps [simp]: "\<not> res_ok (Inl e)" "res_ok (Inr x)"
  by (simp_all add: res_ok_def)

lemma res_ok_iff: "res_ok r \<longleftrightarrow> (\<exists>x. r = Inr x)"
  by (cases r) auto

lemma res_map_Inr_iff:
  "res_map f xs = Inr ys \<longleftrightarrow> list_all2 (\<lambda>x y. f x = Inr y) xs ys"
  by (induction xs arbitrary: ys) (auto simp: list_all2_Cons1)

lemma byte1_Inr [simp]: "n < 256 \<Longrightarrow> byte1 n = Inr [mk_byte n]"
  by (simp add: byte1_def)

lemma byte_val_less [simp]: "byte_val c < 256"
proof -
  have "byte_val c mod 256 < 256" by (rule mod_less_divisor) simp
  then show ?thesis by simp
qed

lemma byte_val_le [simp]: "byte_val c \<le> 255"
  using byte_val_less [of c] by linarith

lemma byte_val_mk_byte [simp]: "n < 256 \<Longrightarrow> byte_val (mk_byte n) = n"
  by simp

text \<open>The end of a line of HTTP, and of a header block.\<close>

definition crlf :: bytes where
  "crlf = [CHR 0x0D, CHR 0x0A]"

definition crlf2 :: bytes where
  "crlf2 = [CHR 0x0D, CHR 0x0A, CHR 0x0D, CHR 0x0A]"

definition crlf_lines :: "bytes list \<Rightarrow> bytes" where
  "crlf_lines ls = concat (map (\<lambda>l. l @ crlf) ls)"

section \<open>Slices and searches\<close>

lemma list_all_notin: "list_all P xs \<Longrightarrow> \<not> P c \<Longrightarrow> c \<notin> set xs"
  by (auto simp: list_all_iff)

lemma list_all_weaken: "list_all P xs \<Longrightarrow> (\<And>x. P x \<Longrightarrow> Q x) \<Longrightarrow> list_all Q xs"
  by (auto simp: list_all_iff)

text \<open>\<open>data[a:b]\<close> for indices that are not negative: both are clipped to the length.\<close>

definition slice :: "'a list \<Rightarrow> nat \<Rightarrow> nat \<Rightarrow> 'a list" where
  "slice xs a b = take (b - a) (drop a xs)"

lemma length_slice [simp]: "length (slice xs a b) = min (b - a) (length xs - a)"
  by (simp add: slice_def)

text \<open>\<open>data.find(marker)\<close> as the offset of the first occurrence, \<open>None\<close> for -1.\<close>

fun starts_with :: "'a list \<Rightarrow> 'a list \<Rightarrow> bool" where
  "starts_with [] ys = True"
| "starts_with (x # xs) [] = False"
| "starts_with (x # xs) (y # ys) = (x = y \<and> starts_with xs ys)"

fun find_sub :: "'a list \<Rightarrow> 'a list \<Rightarrow> nat option" where
  "find_sub m [] = (if m = [] then Some 0 else None)"
| "find_sub m (y # ys) =
     (if starts_with m (y # ys) then Some 0 else map_option Suc (find_sub m ys))"

lemma starts_with_iff: "starts_with m ys \<longleftrightarrow> (\<exists>zs. ys = m @ zs)"
  by (induction m ys rule: starts_with.induct) auto

lemma starts_with_append [simp]: "starts_with m (m @ zs)"
  by (auto simp: starts_with_iff)

lemma starts_with_mono: "starts_with m ys \<Longrightarrow> starts_with m (ys @ zs)"
  by (auto simp: starts_with_iff)

lemma starts_with_cut: "starts_with m (ys @ zs) \<Longrightarrow> length m \<le> length ys \<Longrightarrow> starts_with m ys"
  by (induction m ys rule: starts_with.induct) auto

lemma find_sub_Some_drop: "find_sub m ys = Some k \<Longrightarrow> starts_with m (drop k ys)"
  by (induction m ys arbitrary: k rule: find_sub.induct) (auto split: if_splits)

lemma find_sub_Some_length: "find_sub m ys = Some k \<Longrightarrow> k + length m \<le> length ys"
proof -
  assume a: "find_sub m ys = Some k"
  then obtain zs where z: "drop k ys = m @ zs"
    using find_sub_Some_drop starts_with_iff by blast
  have "k \<le> length ys"
    using a by (induction m ys arbitrary: k rule: find_sub.induct) (auto split: if_splits)
  with arg_cong [OF z, of length] show ?thesis by simp
qed

lemma find_sub_least: "find_sub m ys = Some k \<Longrightarrow> j < k \<Longrightarrow> \<not> starts_with m (drop j ys)"
proof (induction m ys arbitrary: k j rule: find_sub.induct)
  case (2 m y ys)
  then show ?case by (cases j) (auto split: if_splits)
qed (auto split: if_splits)

text \<open>More data behind an occurrence does not move the first one.\<close>

lemma find_sub_append: "find_sub m ys = Some k \<Longrightarrow> find_sub m (ys @ zs) = Some k"
proof (induction m ys arbitrary: k rule: find_sub.induct)
  case (1 m)
  then show ?case by (cases zs) (auto split: if_splits)
next
  case (2 m y ys)
  show ?case
  proof (cases "starts_with m (y # ys)")
    case True
    then have "starts_with m (y # ys @ zs)"
      using starts_with_mono [of m "y # ys" zs] by simp
    with True 2 show ?thesis by simp
  next
    case False
    with 2 obtain k' where k': "find_sub m ys = Some k'" "k = Suc k'" by auto
    have "length m \<le> length (y # ys)"
      using find_sub_Some_length [OF k'(1)] by simp
    then have "\<not> starts_with m (y # ys @ zs)"
      using False starts_with_cut [of m "y # ys" zs] by auto
    with 2 False k' show ?thesis by simp
  qed
qed

lemma find_sub_cut:
  "find_sub m (ys @ zs) = Some k \<Longrightarrow> k + length m \<le> length ys \<Longrightarrow> find_sub m ys = Some k"
proof (induction m ys arbitrary: k rule: find_sub.induct)
  case (1 m)
  then show ?case by (cases zs) (auto split: if_splits)
next
  case (2 m y ys)
  have "length m \<le> length (y # ys)" using 2(3) by simp
  then have "starts_with m (y # ys @ zs) \<longleftrightarrow> starts_with m (y # ys)"
    using starts_with_cut [of m "y # ys" zs] starts_with_mono [of m "y # ys" zs] by auto
  with 2 show ?case by (auto split: if_splits)
qed

lemma find_sub_take: "find_sub m (take n ys) = Some k \<Longrightarrow> find_sub m ys = Some k \<and> k + length m \<le> n"
  using find_sub_append [of m "take n ys" k "drop n ys"] find_sub_Some_length [of m "take n ys" k]
  by simp

text \<open>A stretch without the marker's first byte is skipped.\<close>

lemma find_sub_skip:
  "m \<noteq> [] \<Longrightarrow> hd m \<notin> set l \<Longrightarrow> find_sub m (l @ d) = map_option ((+) (length l)) (find_sub m d)"
proof (induction l)
  case Nil
  then show ?case by (simp add: option.map_ident)
next
  case (Cons x l)
  then have "\<not> starts_with m (x # l @ d)" by (cases m) auto
  with Cons show ?case by (simp add: option.map_comp o_def)
qed

section \<open>Decimal numerals\<close>

text \<open>\<open>str(n)\<close> for a number that is not negative.\<close>

function show_nat :: "nat \<Rightarrow> string" where
  "show_nat n = (if n < 10 then [mk_byte (48 + n)] else show_nat (n div 10) @ [mk_byte (48 + n mod 10)])"
  by pat_completeness auto
termination
  by (relation "measure id") auto

declare show_nat.simps [simp del]

section \<open>Big-endian integers\<close>

text \<open>\<open>int.to_bytes(n, "big")\<close> without and with its range check, and \<open>int.from_bytes\<close>.\<close>

fun be_bytes :: "nat \<Rightarrow> nat \<Rightarrow> bytes" where
  "be_bytes 0 v = []"
| "be_bytes (Suc n) v = be_bytes n (v div 256) @ [mk_byte (v mod 256)]"

definition to_bytes :: "nat \<Rightarrow> nat \<Rightarrow> bytes res" where
  "to_bytes n v = (if v < 256 ^ n then Inr (be_bytes n v) else Inl OverflowError)"

definition from_bytes :: "bytes \<Rightarrow> nat" where
  "from_bytes d = foldl (\<lambda>a c. a * 256 + byte_val c) 0 d"

lemma from_bytes_Nil [simp]: "from_bytes [] = 0"
  by (simp add: from_bytes_def)

lemma from_bytes_snoc [simp]: "from_bytes (d @ [c]) = from_bytes d * 256 + byte_val c"
  by (simp add: from_bytes_def)

lemma length_be_bytes [simp]: "length (be_bytes n v) = n"
  by (induction n arbitrary: v) auto

lemma from_be_bytes: "v < 256 ^ n \<Longrightarrow> from_bytes (be_bytes n v) = v"
proof (induction n arbitrary: v)
  case (Suc n)
  then have "v div 256 < 256 ^ n"
    by (simp add: less_mult_imp_div_less mult.commute)
  with Suc.IH show ?case by simp
qed simp

lemma be_from_bytes: "be_bytes (length d) (from_bytes d) = d"
  by (induction d rule: rev_induct) auto

lemma from_bytes_less: "from_bytes d < 256 ^ length d"
proof (induction d rule: rev_induct)
  case (snoc c d)
  have "from_bytes d * 256 + byte_val c < (from_bytes d + 1) * 256"
    using byte_val_less [of c] by (simp add: distrib_right)
  also have "\<dots> \<le> 256 ^ length d * 256"
    using snoc by (intro mult_right_mono) auto
  finally show ?case by (simp add: mult.commute)
qed simp

lemma from_bytes_2: "from_bytes [a, b] = byte_val a * 256 + byte_val b"
  by (simp add: from_bytes_def)

lemma be_bytes_2: "be_bytes 2 v = [mk_byte (v div 256 mod 256), mk_byte (v mod 256)]"
  by (simp add: numeral_2_eq_2)

lemma to_bytes_Inr [simp]: "v < 256 ^ n \<Longrightarrow> to_bytes n v = Inr (be_bytes n v)"
  by (simp add: to_bytes_def)

lemma to_bytes_Inr_iff: "to_bytes n v = Inr d \<longleftrightarrow> v < 256 ^ n \<and> d = be_bytes n v"
  by (auto simp: to_bytes_def)

section \<open>Masks\<close>

lemma and_mask_mod: "(n::nat) AND (2 ^ k - 1) = n mod 2 ^ k"
  using take_bit_eq_mask [of k n] by (simp add: mask_eq_exp_minus_1 take_bit_eq_mod)

lemma or_low_add:
  assumes "(v::nat) < 2 ^ k"
  shows "2 ^ k * a OR v = 2 ^ k * a + v"
proof -
  have "take_bit k v = v"
    using assms by (rule take_bit_nat_eq_self)
  moreover have "push_bit k a AND take_bit k v = 0"
    by (auto simp: bit_eq_iff bit_simps)
  ultimately have "push_bit k a AND v = 0" by simp
  then have "push_bit k a + v = push_bit k a OR v"
    by (rule disjunctive_add_eq_or)
  then show ?thesis by (simp add: push_bit_eq_mult mult.commute)
qed

lemma and_high_bit: "(b::nat) AND 2 ^ k \<noteq> 0 \<longleftrightarrow> odd (b div 2 ^ k)"
  by (simp add: and_exp_eq_0_iff_not_bit bit_iff_odd)

section \<open>Self-delimiting encodings\<close>

text \<open>
  Reading a byte string to its end with a decoder that returns an item and what follows
  it. A decoder that does not consume anything makes no progress and is a failure.
\<close>

function parse_all :: "(bytes \<Rightarrow> ('a \<times> bytes) option) \<Rightarrow> bytes \<Rightarrow> 'a list option" where
  "parse_all dec d =
     (if d = [] then Some []
      else case dec d of
             None \<Rightarrow> None
           | Some (x, r) \<Rightarrow>
               if length r < length d then map_option (Cons x) (parse_all dec r) else None)"
  by pat_completeness auto
termination
  by (relation "measure (\<lambda>(dec, d). length d)") auto

declare parse_all.simps [simp del]

lemma parse_all_Nil [simp]: "parse_all dec [] = Some []"
  by (simp add: parse_all.simps)

text \<open>One item at the front is the first of the list.\<close>

lemma parse_all_item:
  assumes "d \<noteq> []" "dec (d @ rest) = Some (x, rest)"
  shows "parse_all dec (d @ rest) = map_option (Cons x) (parse_all dec rest)"
  using assms by (simp add: parse_all.simps [of dec "d @ rest"])

text \<open>
  The contract: what is encoded is decoded back, whatever follows, and an item takes at
  least one byte. Under it a concatenation of items has exactly one reading.
\<close>

locale prefix_codec =
  fixes enc :: "'a \<Rightarrow> bytes"
    and dec :: "bytes \<Rightarrow> ('a \<times> bytes) option"
    and ok :: "'a \<Rightarrow> bool"
  assumes dec_enc: "ok x \<Longrightarrow> dec (enc x @ rest) = Some (x, rest)"
    and enc_progress: "ok x \<Longrightarrow> enc x \<noteq> []"
begin

lemma parse_all_enc:
  "list_all ok xs \<Longrightarrow> parse_all dec (concat (map enc xs)) = Some xs"
proof (induction xs)
  case (Cons x xs)
  then have "enc x \<noteq> []" "dec (enc x @ concat (map enc xs)) = Some (x, concat (map enc xs))"
    by (auto dest: enc_progress intro: dec_enc)
  with Cons show ?case by (simp add: parse_all_item)
qed simp

lemma enc_list_inj:
  assumes "list_all ok xs" "list_all ok ys"
    and "concat (map enc xs) = concat (map enc ys)"
  shows "xs = ys"
proof -
  have "Some xs = Some ys"
    by (simp only: parse_all_enc [OF assms(1), symmetric] parse_all_enc [OF assms(2), symmetric]
        assms(3))
  then show ?thesis by simp
qed

lemma enc_prefix_free:
  assumes "ok x" "ok y" "enc x @ r = enc y @ s"
  shows "x = y \<and> r = s"
proof -
  have "Some (x, r) = Some (y, s)"
    by (simp only: dec_enc [OF assms(1), symmetric] dec_enc [OF assms(2), symmetric] assms(3))
  then show ?thesis by simp
qed

end

text \<open>
  A canonical encoding also has only one encoding of an item: whatever is decoded is the
  encoding of a legal item.
\<close>

locale canonical_codec = prefix_codec +
  assumes dec_canonical: "dec d = Some (x, r) \<Longrightarrow> ok x \<and> d = enc x @ r"
begin

lemma parse_all_step:
  "d \<noteq> [] \<Longrightarrow> parse_all dec d =
     (case dec d of None \<Rightarrow> None | Some (x, r) \<Rightarrow> map_option (Cons x) (parse_all dec r))"
proof (cases "dec d")
  case (Some p)
  moreover obtain x r where p: "p = (x, r)" by (cases p)
  moreover have "length r < length d"
    using dec_canonical [of d x r] enc_progress [of x] Some p by auto
  ultimately show "d \<noteq> [] \<Longrightarrow> ?thesis"
    by (simp add: parse_all.simps [of dec d])
qed (simp add: parse_all.simps [of dec d])

lemma parse_all_canonical:
  "parse_all dec d = Some xs \<Longrightarrow> list_all ok xs \<and> d = concat (map enc xs)"
proof (induction "length d" arbitrary: d xs rule: less_induct)
  case less
  show ?case
  proof (cases "d = []")
    case True
    with less.prems show ?thesis by simp
  next
    case False
    with less.prems obtain x r ys where d: "dec d = Some (x, r)" "length r < length d"
      and ys: "parse_all dec r = Some ys" "xs = x # ys"
      by (auto simp: parse_all.simps [of dec d] split: option.splits prod.splits if_splits)
    with less.hyps [OF d(2) ys(1)] dec_canonical [OF d(1)] show ?thesis by simp
  qed
qed

end

end
