(* ===== verification/Framing.thy ===== *)
theory Framing
  imports Prelude
begin

text \<open>
  The fuzzer input format: a control byte, then either one raw request or a sequence of
  packets, each behind a two-byte big-endian length. The format is written by
  \<open>multipacket\<close>, checked by \<open>valid_multipacket\<close> and repaired by \<open>normalize\<close> in
  normalize-corpus-flags.py, and read back by \<open>fuzzer_packets\<close> in send-test-case.py;
  fuzzer.c has its own check, \<open>fuzzValidMultipacketData\<close>. The loops of the three readers
  keep an offset into the whole input, as in the sources; the format itself is specified by
  \<open>frame\<close> and \<open>unframe\<close> below, and the readers are proved to agree with it.
\<close>

section \<open>The format\<close>

definition frame :: "bytes \<Rightarrow> bytes" where
  "frame p = be_bytes 2 (length p) @ p"

definition packet_ok :: "bytes \<Rightarrow> bool" where
  "packet_ok p \<longleftrightarrow> 0 < length p \<and> length p < 65536"

definition frames :: "bytes list \<Rightarrow> bytes" where
  "frames ps = concat (map frame ps)"

text \<open>What the README promises: 1 to 64 complete packets, none of them empty.\<close>

definition packets_ok :: "bytes list \<Rightarrow> bool" where
  "packets_ok ps \<longleftrightarrow> list_all packet_ok ps \<and> 0 < length ps \<and> length ps \<le> 64"

text \<open>One packet off the front.\<close>

definition unframe :: "bytes \<Rightarrow> (bytes \<times> bytes) option" where
  "unframe d =
     (if length d < 2 then None
      else let n = from_bytes (take 2 d); r = drop 2 d in
        if n = 0 \<or> n > length r then None else Some (take n r, drop n r))"

lemma frame_head:
  "take 2 (frame p @ r) = be_bytes 2 (length p)" "drop 2 (frame p @ r) = p @ r"
  "length (frame p) = length p + 2"
  by (simp_all add: frame_def)

interpretation pkt: canonical_codec frame unframe packet_ok
proof
  fix x rest
  assume ok: "packet_ok x"
  then have "from_bytes (be_bytes 2 (length x)) = length x"
    by (simp add: packet_ok_def from_be_bytes)
  with ok show "unframe (frame x @ rest) = Some (x, rest)"
    by (simp add: unframe_def packet_ok_def frame_head Let_def del: take_append drop_append) simp
next
  fix x
  show "packet_ok x \<Longrightarrow> frame x \<noteq> []"
    by (simp add: packet_ok_def frame_def)
next
  fix d x r
  assume u: "unframe d = Some (x, r)"
  define n where "n = from_bytes (take 2 d)"
  from u have l: "2 \<le> length d" "0 < n" "n \<le> length d - 2"
    and x: "x = take n (drop 2 d)" "r = drop n (drop 2 d)"
    by (auto simp: unframe_def n_def Let_def split: if_splits)
  have "n < 65536"
    using from_bytes_less [of "take 2 d"] l(1) by (simp add: n_def)
  moreover have "be_bytes 2 n = take 2 d"
    using be_from_bytes [of "take 2 d"] l(1) by (simp add: n_def)
  moreover have "take 2 d @ x @ r = d"
    by (simp only: x append_take_drop_id)
  moreover have "length x = n"
    using l x(1) by simp
  ultimately show "packet_ok x \<and> d = frame x @ r"
    using l(2) by (simp add: packet_ok_def frame_def)
qed

section \<open>normalize-corpus-flags.py: valid_multipacket, multipacket, normalize\<close>

function vm_loop :: "bytes \<Rightarrow> nat \<Rightarrow> nat \<Rightarrow> bool" where
  "vm_loop data offset packet_count =
     (if offset < length data then
        if length data - offset < 2 then False
        else let size = from_bytes (slice data offset (offset + 2)); offset = offset + 2 in
          if size = 0 \<or> size > length data - offset then False
          else if packet_count + 1 > 64 then False
          else vm_loop data (offset + size) (packet_count + 1)
      else packet_count > 0)"
  by pat_completeness auto
termination
  by (relation "measure (\<lambda>(data, offset, _). length data - offset)") auto

declare vm_loop.simps [simp del]

definition valid_multipacket :: "bytes \<Rightarrow> bool" where
  "valid_multipacket data = vm_loop data 0 0"

text \<open>
  \<open>bytearray([flags])\<close> accepts a byte only, and each length has to fit two bytes; the
  function checks nothing else, so an empty packet or a 65th one is framed all the same.
\<close>

fun mp_loop :: "bytes \<Rightarrow> bytes list \<Rightarrow> bytes res" where
  "mp_loop result [] = Inr result"
| "mp_loop result (packet # packets) =
     res_bind (to_bytes 2 (length packet)) (\<lambda>n. mp_loop (result @ n @ packet) packets)"

definition multipacket :: "nat \<Rightarrow> bytes list \<Rightarrow> bytes res" where
  "multipacket flags packets = res_bind (byte1 flags) (\<lambda>b. mp_loop b packets)"

definition normalize :: "bytes \<Rightarrow> bytes" where
  "normalize data =
     (case data of
        [] \<Rightarrow> data
      | c # rest \<Rightarrow>
          if byte_val c \<le> 7 then
            if byte_val c AND 2 \<noteq> 0 \<and> \<not> valid_multipacket rest then mk_byte 0 # data
            else mk_byte (byte_val c AND 7) # rest
          else mk_byte 0 # data)"

section \<open>send-test-case.py: fuzzer_packets\<close>

function fp_loop :: "bytes \<Rightarrow> nat \<Rightarrow> bytes list \<Rightarrow> bytes list res" where
  "fp_loop data offset packets =
     (if offset < length data then
        if length data - offset < 2 then Inl (ValueError ''truncated packet length'')
        else let len = from_bytes (slice data offset (offset + 2)); offset = offset + 2;
                 endp = offset + len in
          if len = 0 \<or> endp > length data then Inl (ValueError ''invalid packet length'')
          else let packets = packets @ [slice data offset endp] in
            if length packets > 64 then Inl (ValueError ''too many packets'')
            else fp_loop data endp packets
      else if packets = [] then Inl (ValueError ''fuzzer input has no packets'')
      else Inr packets)"
  by pat_completeness auto
termination
  by (relation "measure (\<lambda>(data, offset, _). length data - offset)") auto

declare fp_loop.simps [simp del]

definition fuzzer_packets :: "bytes \<Rightarrow> bytes list res" where
  "fuzzer_packets data =
     (case data of
        [] \<Rightarrow> Inl (ValueError ''empty fuzzer input'')
      | c # rest \<Rightarrow> if byte_val c AND 2 = 0 then Inr [rest] else fp_loop data 1 [])"

section \<open>The readers follow the format\<close>

lemma unframe_drop:
  "unframe (drop off data) =
     (if length data - off < 2 then None
      else let n = from_bytes (slice data off (off + 2)) in
        if n = 0 \<or> n > length data - (off + 2) then None
        else Some (slice data (off + 2) (off + 2 + n), drop (off + 2 + n) data))"
  by (simp add: unframe_def slice_def Let_def ac_simps)

text \<open>One round of each loop takes one packet off the rest of the input.\<close>

lemma unframe_drop_Some:
  "unframe (drop off data) = Some (p, r) \<Longrightarrow>
     off < length data \<and> r = drop (off + 2 + length p) data \<and> off + 2 + length p \<le> length data"
  by (auto simp: unframe_drop Let_def split: if_splits)

lemma vm_loop_step:
  "offset < length data \<Longrightarrow> vm_loop data offset packet_count =
     (case unframe (drop offset data) of
        None \<Rightarrow> False
      | Some (p, r) \<Rightarrow>
          packet_count + 1 \<le> 64 \<and> vm_loop data (offset + 2 + length p) (packet_count + 1))"
  by (subst vm_loop.simps) (simp add: unframe_drop Let_def)

lemma vm_loop_parse:
  "packet_count \<le> 64 \<Longrightarrow> vm_loop data offset packet_count \<longleftrightarrow>
     (\<exists>ps. parse_all unframe (drop offset data) = Some ps
        \<and> 0 < packet_count + length ps \<and> packet_count + length ps \<le> 64)"
proof (induction "length data - offset" arbitrary: offset packet_count rule: less_induct)
  case less
  show ?case
  proof (cases "offset < length data")
    case False
    then show ?thesis using less.prems by (simp add: vm_loop.simps [of data offset])
  next
    case True
    show ?thesis
    proof (cases "unframe (drop offset data)")
      case None
      with True show ?thesis by (simp add: vm_loop_step pkt.parse_all_step)
    next
      case (Some pr)
      then obtain p r where pr: "unframe (drop offset data) = Some (p, r)" by (cases pr) auto
      note r = unframe_drop_Some [OF pr]
      then have "length data - (offset + 2 + length p) < length data - offset" by linarith
      note IH = less.hyps [OF this, of "Suc packet_count"]
      from True pr r show ?thesis
        by (cases "packet_count + 1 \<le> 64")
           (auto simp: vm_loop_step pkt.parse_all_step IH)
    qed
  qed
qed

lemma parse_unframe_iff:
  "parse_all unframe d = Some ps \<longleftrightarrow> list_all packet_ok ps \<and> d = frames ps"
  unfolding frames_def using pkt.parse_all_canonical pkt.parse_all_enc by blast


lemma valid_multipacket_iff:
  "valid_multipacket d \<longleftrightarrow> (\<exists>ps. packets_ok ps \<and> d = frames ps)"
  by (auto simp: valid_multipacket_def vm_loop_parse packets_ok_def parse_unframe_iff)

lemma fp_loop_step:
  "offset < length data \<Longrightarrow> fp_loop data offset ps = Inr qs \<longleftrightarrow>
     (case unframe (drop offset data) of
        None \<Rightarrow> False
      | Some (p, r) \<Rightarrow>
          length ps + 1 \<le> 64 \<and> fp_loop data (offset + 2 + length p) (ps @ [p]) = Inr qs)"
  by (subst fp_loop.simps) (auto simp: unframe_drop Let_def)

lemma fp_loop_parse:
  "length ps \<le> 64 \<Longrightarrow> fp_loop data offset ps = Inr qs \<longleftrightarrow>
     (\<exists>rs. parse_all unframe (drop offset data) = Some rs \<and> qs = ps @ rs
        \<and> 0 < length qs \<and> length qs \<le> 64)"
proof (induction "length data - offset" arbitrary: offset ps rule: less_induct)
  case less
  show ?case
  proof (cases "offset < length data")
    case False
    then show ?thesis using less.prems by (auto simp: fp_loop.simps [of data offset])
  next
    case True
    show ?thesis
    proof (cases "unframe (drop offset data)")
      case None
      with True show ?thesis by (simp add: fp_loop_step pkt.parse_all_step)
    next
      case (Some pr)
      then obtain p r where pr: "unframe (drop offset data) = Some (p, r)" by (cases pr) auto
      note r = unframe_drop_Some [OF pr]
      then have "length data - (offset + 2 + length p) < length data - offset" by linarith
      note IH = less.hyps [OF this, of "ps @ [p]"]
      from True pr r show ?thesis
        by (cases "length ps + 1 \<le> 64") (auto simp: fp_loop_step pkt.parse_all_step IH)
    qed
  qed
qed

lemma fuzzer_packets_multi:
  "byte_val c AND 2 \<noteq> 0 \<Longrightarrow>
     fuzzer_packets (c # d) = Inr ps \<longleftrightarrow> packets_ok ps \<and> d = frames ps"
  by (auto simp: fuzzer_packets_def fp_loop_parse parse_unframe_iff packets_ok_def)

lemma mp_loop_frames:
  "mp_loop b ps = Inr d \<longleftrightarrow> list_all (\<lambda>p. length p < 65536) ps \<and> d = b @ frames ps"
  by (induction ps arbitrary: b) (auto simp: to_bytes_Inr_iff frames_def frame_def)

lemma multipacket_Inr_iff:
  "multipacket flags ps = Inr d \<longleftrightarrow>
     flags < 256 \<and> list_all (\<lambda>p. length p < 65536) ps \<and> d = mk_byte flags # frames ps"
  by (auto simp: multipacket_def byte1_def mp_loop_frames)

lemma packets_ok_lengths: "packets_ok ps \<Longrightarrow> list_all (\<lambda>p. length p < 65536) ps"
  by (auto simp: packets_ok_def packet_ok_def list_all_iff)

lemma frames_inj: "packets_ok ps \<Longrightarrow> packets_ok qs \<Longrightarrow> frames ps = frames qs \<Longrightarrow> ps = qs"
  unfolding frames_def packets_ok_def by (auto intro: pkt.enc_list_inj)

text \<open>An input the harness runs: a control byte of the three flags, and framing that holds.\<close>

definition harness_ok :: "bytes \<Rightarrow> bool" where
  "harness_ok d =
     (case d of [] \<Rightarrow> False
      | c # r \<Rightarrow> byte_val c \<le> 7 \<and> (byte_val c AND 2 = 0 \<or> valid_multipacket r))"

lemma and_7_small: "(n::nat) \<le> 7 \<Longrightarrow> n AND 7 = n"
  using take_bit_eq_mask [of 3 n] take_bit_nat_eq_self [of n 3] by (simp add: mask_eq_exp_minus_1)

lemma normalize_eq: "normalize d = (if d = [] \<or> harness_ok d then d else mk_byte 0 # d)"
  by (cases d) (auto simp: normalize_def harness_ok_def and_7_small)

lemma harness_ok_zero [simp]: "harness_ok (mk_byte 0 # d)"
  by (simp add: harness_ok_def)

lemma harness_ok_normalize: "d \<noteq> [] \<Longrightarrow> harness_ok (normalize d)"
  by (simp add: normalize_eq)

lemma normalize_eq_Nil [simp]: "normalize d = [] \<longleftrightarrow> d = []"
  by (simp add: normalize_eq)

lemma harness_ok_multipacket:
  assumes "packets_ok ps" "flags \<le> 7" "multipacket flags ps = Inr d"
  shows "harness_ok d"
  using assms by (auto simp: multipacket_Inr_iff harness_ok_def valid_multipacket_iff)

text \<open>What the sender reads out of an input the harness runs.\<close>

lemma fuzzer_packets_harness_ok:
  assumes "harness_ok d"
  shows "\<exists>ps. fuzzer_packets d = Inr ps \<and> 0 < length ps \<and> length ps \<le> 64"
proof -
  from assms obtain c r where d: "d = c # r"
    by (auto simp: harness_ok_def split: list.splits)
  show ?thesis
  proof (cases "byte_val c AND 2 = 0")
    case True
    then show ?thesis by (simp add: d fuzzer_packets_def)
  next
    case False
    with assms d obtain ps where "packets_ok ps" "r = frames ps"
      by (auto simp: harness_ok_def valid_multipacket_iff)
    with False have "fuzzer_packets d = Inr ps" by (simp add: d fuzzer_packets_multi)
    with \<open>packets_ok ps\<close> show ?thesis by (auto simp: packets_ok_def)
  qed
qed

section \<open>Properties\<close>

text \<open>C1: \<open>valid_multipacket\<close> accepts exactly the byte strings that are 1 to 64 complete,
  nonempty packets, each behind its two-byte big-endian length, with nothing left over.\<close>

theorem valid_multipacket_format:
  "valid_multipacket d \<longleftrightarrow>
     (\<exists>ps. d = concat (map (\<lambda>p. be_bytes 2 (length p) @ p) ps)
        \<and> list_all (\<lambda>p. 0 < length p \<and> length p < 65536) ps
        \<and> 1 \<le> length ps \<and> length ps \<le> 64)"
proof -
  have fr: "(\<lambda>p. be_bytes 2 (length p) @ p) = frame" by (rule ext) (simp add: frame_def)
  have ok: "(\<lambda>p::bytes. 0 < length p \<and> length p < 65536) = packet_ok"
    by (rule ext) (simp add: packet_ok_def)
  show ?thesis
    unfolding fr ok valid_multipacket_iff packets_ok_def frames_def by (auto simp: Suc_le_eq)
qed

text \<open>C2: what \<open>multipacket\<close> frames with the multipacket flag set, \<open>fuzzer_packets\<close> of
  send-test-case.py reads back as the same packets, for 1 to 64 nonempty packets of at most
  65535 bytes.\<close>

theorem multipacket_round_trip:
  assumes "packets_ok ps" and "flags < 256" and "flags AND 2 \<noteq> 0"
  shows "\<exists>d. multipacket flags ps = Inr d \<and> valid_multipacket (tl d) \<and> fuzzer_packets d = Inr ps"
  using assms packets_ok_lengths [OF assms(1)]
  by (auto simp: multipacket_Inr_iff fuzzer_packets_multi valid_multipacket_iff)

lemma multipacket_round_trip_witness:
  "\<exists>d. multipacket 6 [''GET'', ''x''] = Inr d \<and> valid_multipacket (tl d)
     \<and> fuzzer_packets d = Inr [''GET'', ''x'']"
  by (rule multipacket_round_trip) (simp_all add: packets_ok_def packet_ok_def)

text \<open>C3: on every input with the multipacket flag the corpus tool's check and the sender's
  reader agree on what is legal, and a successful read loses nothing: framing the packets
  again with the same control byte gives back the input, byte for byte.\<close>

theorem reader_agrees_with_validator:
  assumes "byte_val c AND 2 \<noteq> 0"
  shows "(valid_multipacket d \<longleftrightarrow> (\<exists>ps. fuzzer_packets (c # d) = Inr ps))
     \<and> (fuzzer_packets (c # d) = Inr ps \<longrightarrow> multipacket (byte_val c) ps = Inr (c # d))"
  using assms packets_ok_lengths
  by (auto simp: fuzzer_packets_multi valid_multipacket_iff multipacket_Inr_iff)

lemma reader_agrees_with_validator_witness:
  "valid_multipacket (frames [''seed'']) \<and>
     multipacket 2 [''seed''] = Inr (mk_byte 2 # frames [''seed''])"
proof -
  have c: "byte_val (mk_byte 2) AND 2 \<noteq> 0" by simp
  have "fuzzer_packets (mk_byte 2 # frames [''seed'']) = Inr [''seed'']"
    by (simp add: fuzzer_packets_multi packets_ok_def packet_ok_def)
  with reader_agrees_with_validator [OF c, of "frames [''seed'']" "[''seed'']"]
  show ?thesis by auto
qed

text \<open>C4: \<open>normalize\<close> turns every nonempty file into an input the harness runs (a control
  byte of the three flags, valid framing when the multipacket flag is set) that the sender can
  read; a file that already is one is left alone, any other one becomes the payload of a plain
  input, so no byte is lost; and normalising again changes nothing.\<close>

theorem normalize_correct:
  assumes "d \<noteq> []"
  shows "harness_ok (normalize d)
     \<and> normalize d = (if harness_ok d then d else mk_byte 0 # d)
     \<and> normalize (normalize d) = normalize d
     \<and> (\<exists>ps. fuzzer_packets (normalize d) = Inr ps \<and> 1 \<le> length ps \<and> length ps \<le> 64)"
  using assms harness_ok_normalize [OF assms] fuzzer_packets_harness_ok [of "normalize d"]
  by (auto simp: normalize_eq Suc_le_eq)

lemma normalize_correct_witness: "harness_ok (normalize ''GET'')"
  using normalize_correct [of "''GET''"] by simp

end
