(* ===== verification/Seed_Requests.thy ===== *)
theory Seed_Requests
  imports Framing
begin

text \<open>
  The HTTP/1 requests, WebDAV and proxy sequences and PROXY-protocol preludes of
  normalize-corpus-flags.py, byte for byte: the module's constants of the same names. A
  literal of the source is a list of lines, each ended by CR LF, and what follows the last
  one; \<open>dq\<close> is the double quote.
\<close>

abbreviation dq :: bytes where
  "dq \<equiv> [CHR 0x22]"

definition encoded_request :: "bytes \<Rightarrow> bytes \<Rightarrow> bytes" where
  "encoded_request path extra_headers =
     ''GET '' @ path @ crlf_lines ['' HTTP/1.1'', ''Host: localhost''] @ extra_headers
     @ crlf_lines [''Connection: close'', []]"

definition GET_ROOT :: bytes where
  "GET_ROOT =
     crlf_lines [''GET / HTTP/1.1'', ''Host: localhost'', ''Connection: close'', []]"

definition GET_KEEPALIVE :: bytes where
  "GET_KEEPALIVE =
     crlf_lines [''GET / HTTP/1.1'', ''Host: localhost'', ''Connection: keep-alive'', []]"

definition GET_FILE :: bytes where
  "GET_FILE =
     crlf_lines [''GET /files/index.txt HTTP/1.1'', ''Host: localhost'',
     ''Accept-Encoding: gzip'', ''Connection: close'', []]"

definition OPTIONS :: bytes where
  "OPTIONS =
     crlf_lines [''OPTIONS * HTTP/1.1'', ''Host: localhost'', []]"

definition HEAD_ROOT :: bytes where
  "HEAD_ROOT =
     crlf_lines [''HEAD / HTTP/1.1'', ''Host: localhost'', ''Connection: close'', []]"

definition RANGE_REQUEST :: bytes where
  "RANGE_REQUEST =
     crlf_lines [''GET /files/index.txt HTTP/1.1'', ''Host: localhost'', ''Range: bytes=0-7'',
     ''Connection: close'', []]"

definition FORWARDED_REQUEST :: bytes where
  "FORWARDED_REQUEST =
     crlf_lines [''GET / HTTP/1.1'', ''Host: localhost'',
     ''Forwarded: for=192.0.2.1;proto=https'', ''Connection: close'', []]"

definition PRIVATE_REQUEST :: bytes where
  "PRIVATE_REQUEST =
     crlf_lines [''GET /private/index.txt HTTP/1.1'', ''Host: localhost'',
     ''Connection: close'', []]"

definition PRIVATE_AUTH_REQUEST :: bytes where
  "PRIVATE_AUTH_REQUEST =
     crlf_lines [''GET /private/index.txt HTTP/1.1'', ''Host: localhost'',
     ''Authorization: Basic ZnV6ejpmdXp6'', ''Connection: close'', []]"

definition STATUS_REQUEST :: bytes where
  "STATUS_REQUEST =
     crlf_lines [''GET /server-status?auto HTTP/1.1'', ''Host: localhost'',
     ''Connection: close'', []]"

definition ALIAS_REQUEST :: bytes where
  "ALIAS_REQUEST =
     crlf_lines [''GET /alias/index.txt HTTP/1.1'', ''Host: localhost'', ''Connection: close'',
     []]"

definition REDIRECT_REQUEST :: bytes where
  "REDIRECT_REQUEST =
     crlf_lines [''GET /redirect HTTP/1.1'', ''Host: localhost'', ''Connection: close'', []]"

definition REWRITE_REQUEST :: bytes where
  "REWRITE_REQUEST =
     crlf_lines [''GET /rewrite/files/index.txt HTTP/1.1'', ''Host: localhost'',
     ''Connection: close'', []]"

definition WEBDAV_PUT :: bytes where
  "WEBDAV_PUT =
     crlf_lines [''PUT /dav/seed.txt HTTP/1.1'', ''Host: localhost'', ''Content-Length: 4'',
     []] @ ''seed''"

definition WEBDAV_CHUNKED_PUT :: bytes where
  "WEBDAV_CHUNKED_PUT =
     crlf_lines [''PUT /dav/chunked.txt HTTP/1.1'', ''Host: localhost'',
     ''Transfer-Encoding: chunked'', ''Connection: close'', [], ''4'', ''seed'', ''0'', []]"

definition H2C_UPGRADE :: bytes where
  "H2C_UPGRADE =
     crlf_lines [''GET / HTTP/1.1'', ''Host: localhost'',
     ''Connection: Upgrade, HTTP2-Settings'', ''Upgrade: h2c'',
     ''HTTP2-Settings: AAMAAABkAAQAAP__'', []]"

definition HTTP10_RANGE :: bytes where
  "HTTP10_RANGE =
     crlf_lines [''GET /files/large.txt HTTP/1.0'', ''Range: bytes=0-15'',
     ''Connection: close'', []]"

definition MULTI_RANGE :: bytes where
  "MULTI_RANGE =
     crlf_lines [''GET /files/large.txt HTTP/1.1'', ''Host: localhost'',
     ''Range: bytes=96-127,0-15,8-31,-16'', ''Connection: close'', []]"

definition UNSATISFIABLE_RANGE :: bytes where
  "UNSATISFIABLE_RANGE =
     crlf_lines [''GET /files/large.txt HTTP/1.1'', ''Host: localhost'',
     ''Range: bytes=999999-1000000'', ''Connection: close'', []]"

definition IF_RANGE :: bytes where
  "IF_RANGE =
     crlf_lines [''GET /files/large.txt HTTP/1.1'', ''Host: localhost'', ''Range: bytes=0-31'',
     ''If-Range: '' @ dq @ ''stale-seed-etag'' @ dq, ''Connection: close'', []]"

definition CONDITIONAL_GET :: bytes where
  "CONDITIONAL_GET =
     crlf_lines [''GET /files/large.txt HTTP/1.1'', ''Host: localhost'', ''If-None-Match: *'',
     ''If-Modified-Since: Sun, 06 Nov 2094 08:49:37 GMT'', ''Connection: close'', []]"

definition ABSOLUTE_URI :: bytes where
  "ABSOLUTE_URI =
     crlf_lines [''GET http://localhost/files/index.txt?absolute=1 HTTP/1.1'',
     ''Connection: close'', []]"

definition DIRLIST_HTML :: bytes where
  "DIRLIST_HTML =
     crlf_lines [''GET /listing/ HTTP/1.1'', ''Host: localhost'', ''Connection: close'', []]"

definition DIRLIST_JSON :: bytes where
  "DIRLIST_JSON =
     crlf_lines [''GET /listing/?json HTTP/1.1'', ''Host: localhost'',
     ''Accept: application/json'', ''Connection: close'', []]"

definition CONDITIONS_REQUEST :: bytes where
  "CONDITIONS_REQUEST =
     crlf_lines [''POST /branch/conditions/target?mode=fuzz HTTP/1.1'',
     ''Host: conditions.example'', ''User-Agent: FuzzAgent'',
     ''Referer: http://trusted.example/seed'', ''Cookie: fuzz=yes'',
     ''Accept-Language: en-US'', ''Content-Length: 4'', ''Connection: close'', []] @ ''seed''"

definition VHOST_REQUEST :: bytes where
  "VHOST_REQUEST =
     crlf_lines [''GET / HTTP/1.1'', ''Host: one.example'', ''Connection: close'', []]"

definition VHOST_FALLBACK_REQUEST :: bytes where
  "VHOST_FALLBACK_REQUEST =
     crlf_lines [''GET / HTTP/1.1'', ''Host: missing.example'', ''Connection: close'', []]"

definition EVHOST_REQUEST :: bytes where
  "EVHOST_REQUEST =
     crlf_lines [''GET / HTTP/1.1'', ''Host: www.example.org'', ''Connection: close'', []]"

definition USERDIR_REQUEST :: bytes where
  "USERDIR_REQUEST =
     crlf_lines [''GET /~fuzz/ HTTP/1.1'', ''Host: localhost'', ''Connection: close'', []]"

definition SSI_REQUEST :: bytes where
  "SSI_REQUEST =
     crlf_lines [''GET /ssi/index.shtml?seed=yes HTTP/1.1'', ''Host: localhost'',
     ''Connection: close'', []]"

definition CGI_GET :: bytes where
  "CGI_GET =
     crlf_lines [''GET /cgi/echo.cgi?normal HTTP/1.1'', ''Host: localhost'', ''X-Fuzz: seed'',
     ''Connection: close'', []]"

definition CGI_STATUS :: bytes where
  "CGI_STATUS =
     crlf_lines [''GET /cgi/echo.cgi?status HTTP/1.1'', ''Host: localhost'',
     ''Connection: close'', []]"

definition CGI_REDIRECT :: bytes where
  "CGI_REDIRECT =
     crlf_lines [''GET /cgi/echo.cgi?redirect HTTP/1.1'', ''Host: localhost'',
     ''Connection: close'', []]"

definition CGI_XSENDFILE :: bytes where
  "CGI_XSENDFILE =
     crlf_lines [''GET /cgi/echo.cgi?xsendfile HTTP/1.1'', ''Host: localhost'',
     ''Connection: close'', []]"

definition CGI_STREAM :: bytes where
  "CGI_STREAM =
     crlf_lines [''GET /cgi/echo.cgi?stream HTTP/1.1'', ''Host: localhost'',
     ''Connection: close'', []]"

definition CGI_POST :: bytes where
  "CGI_POST =
     crlf_lines [''POST /cgi/echo.cgi?normal HTTP/1.1'', ''Host: localhost'',
     ''Content-Type: application/octet-stream'', ''Content-Length: 4'', ''Connection: close'',
     []] @ ''seed''"

definition CGI_EXPECT_HEADERS :: bytes where
  "CGI_EXPECT_HEADERS =
     crlf_lines [''POST /cgi/echo.cgi?normal HTTP/1.1'', ''Host: localhost'',
     ''Content-Type: application/octet-stream'', ''Content-Length: 4'',
     ''Expect: 100-continue'', ''Connection: close'', []]"

definition CGI_CHUNKED_TRAILER :: bytes where
  "CGI_CHUNKED_TRAILER =
     crlf_lines [''POST /cgi/echo.cgi?stream HTTP/1.1'', ''Host: localhost'',
     ''Transfer-Encoding: chunked'', ''Trailer: Test-Trailer'', ''Connection: close'', [],
     ''4'', ''seed'', ''0'', ''Test-Trailer: finished'', []]"

definition INVALID_TRANSFER_LENGTH :: bytes where
  "INVALID_TRANSFER_LENGTH =
     crlf_lines [''POST /cgi/echo.cgi HTTP/1.1'', ''Host: localhost'', ''Content-Length: 4'',
     ''Transfer-Encoding: chunked'', [], ''4'', ''seed'', ''0'', []]"

definition DIGEST_CHALLENGE_REQUEST :: bytes where
  "DIGEST_CHALLENGE_REQUEST =
     crlf_lines [''GET /digest/index.txt HTTP/1.1'', ''Host: localhost'',
     ''Connection: close'', []]"

definition DIGEST_AUTH_REQUEST :: bytes where
  "DIGEST_AUTH_REQUEST =
     crlf_lines [''GET /digest/index.txt HTTP/1.1'', ''Host: localhost'',
     ''Authorization: Digest username='' @ dq @ ''fuzz'' @ dq @ '', realm='' @ dq @
     ''lighttpd-fuzz-digest'' @ dq @ '', nonce='' @ dq @ ''seed'' @ dq @ '', uri='' @ dq @
     ''/digest/index.txt'' @ dq @ '', algorithm=MD5, response='' @ dq @
     ''00000000000000000000000000000000'' @ dq @ '', qop=auth, nc=00000001, cnonce='' @ dq @
     ''seed'' @ dq, ''Connection: close'', []]"

definition BASIC_USER_AUTH_REQUEST :: bytes where
  "BASIC_USER_AUTH_REQUEST =
     crlf_lines [''GET /basic-user/index.txt HTTP/1.1'', ''Host: localhost'',
     ''Authorization: Basic ZnV6ejpmdXp6'', ''Connection: close'', []]"

definition INVALID_BASIC_AUTH_REQUEST :: bytes where
  "INVALID_BASIC_AUTH_REQUEST =
     crlf_lines [''GET /private/index.txt HTTP/1.1'', ''Host: localhost'',
     ''Authorization: Basic !!!not-base64!!!'', ''Connection: close'', []]"

definition CONDITION_ROUTING_REQUESTS :: "bytes list" where
  "CONDITION_ROUTING_REQUESTS =
     [encoded_request ''/condition-alias/index.txt'' [],
     encoded_request ''/condition-redirect/files/index.txt'' [],
     encoded_request ''/condition-rewrite/files/index.txt'' [],
     encoded_request ''/anything.deny'' [], crlf_lines [''GET /missing HTTP/1.1'',
     ''Host: status-errors.example'', ''Connection: close'', []]]"

definition URL_NORMALIZATION_REQUESTS :: "bytes list" where
  "URL_NORMALIZATION_REQUESTS =
     [encoded_request ''/files/%69ndex.txt?space=a%20b+c'' [],
     encoded_request ''/files%2findex.txt'' [],
     encoded_request ''/files/./../files/index.txt'' [], encoded_request (''/files'' @
     [CHR 0x5C] @ ''index.txt'') [], encoded_request ''/files/%ff.txt'' []]"

definition STATIC_PROFILE_REQUESTS :: "bytes list" where
  "STATIC_PROFILE_REQUESTS =
     [encoded_request ''/static/no-etag/large.txt'' (crlf_lines [''If-None-Match: *'']),
     encoded_request ''/static/pathinfo/large.txt/extra'' [],
     encoded_request ''/static/index/'' [], encoded_request ''/static/link.txt'' [],
     encoded_request ''/no-etag/large.txt'' (crlf_lines [''If-None-Match: *'']),
     encoded_request ''/indexes/'' [], encoded_request ''/no-follow/link.txt'' []]"

definition USERDIR_EDGE_REQUESTS :: "bytes list" where
  "USERDIR_EDGE_REQUESTS =
     map (\<lambda>path. encoded_request path [])
       [''/~./'', ''/~../'', ''/~root/'', ''/~fuzz'', ''/~fuzz/%2e%2e/'']"

definition DEFLATE_REQUESTS :: "bytes list" where
  "DEFLATE_REQUESTS =
     map (\<lambda>encoding. encoded_request ''/files/large.txt''
            (''Accept-Encoding: '' @ encoding @ crlf))
       [''zstd'', ''br'', ''gzip'', ''deflate'', ''bzip2'',
        ''gzip;q=0.3, br;q=1.0, zstd;q=0.7, identity;q=0.1'']"

definition WEBDAV_OPTIONS :: bytes where
  "WEBDAV_OPTIONS =
     crlf_lines [''OPTIONS /dav/ HTTP/1.1'', ''Host: localhost'', ''Connection: close'', []]"

definition WEBDAV_PROPFIND :: bytes where
  "WEBDAV_PROPFIND =
     crlf_lines [''PROPFIND /dav/ HTTP/1.1'', ''Host: localhost'', ''Depth: 1'',
     ''Content-Type: application/xml'', ''Content-Length: 82'', ''Connection: close'', []] @
     ''<?xml version='' @ dq @ ''1.0'' @ dq @ ''?><propfind xmlns='' @ dq @ ''DAV:'' @ dq @
     ''><prop><displayname/></prop></propfind>''"

definition WEBDAV_PROPFIND_INFINITY :: bytes where
  "WEBDAV_PROPFIND_INFINITY =
     crlf_lines [''PROPFIND /dav/ HTTP/1.1'', ''Host: localhost'', ''Depth: infinity'',
     ''Content-Length: 0'', ''Connection: close'', []]"

definition WEBDAV_MKCOL :: bytes where
  "WEBDAV_MKCOL =
     crlf_lines [''MKCOL /dav/seed-collection HTTP/1.1'', ''Host: localhost'',
     ''Content-Length: 0'', ''Connection: close'', []]"

definition WEBDAV_COPY :: bytes where
  "WEBDAV_COPY =
     crlf_lines [''COPY /dav/seed.txt HTTP/1.1'', ''Host: localhost'',
     ''Destination: /dav/copied.txt'', ''Overwrite: T'', ''Depth: infinity'',
     ''Connection: close'', []]"

definition WEBDAV_MOVE :: bytes where
  "WEBDAV_MOVE =
     crlf_lines [''MOVE /dav/copied.txt HTTP/1.1'', ''Host: localhost'',
     ''Destination: /dav/moved.txt'', ''Overwrite: F'', ''Connection: close'', []]"

definition WEBDAV_DELETE :: bytes where
  "WEBDAV_DELETE =
     crlf_lines [''DELETE /dav/moved.txt HTTP/1.1'', ''Host: localhost'',
     ''Connection: close'', []]"

definition WEBDAV_PARTIAL_PUT :: bytes where
  "WEBDAV_PARTIAL_PUT =
     crlf_lines [''PUT /dav/seed.txt HTTP/1.1'', ''Host: localhost'',
     ''Content-Range: bytes 1-2/*'', ''Content-Length: 2'', ''Connection: close'', []] @ ''XX''"

definition MISSING_REQUEST :: bytes where
  "MISSING_REQUEST =
     crlf_lines [''GET /missing HTTP/1.1'', ''Host: localhost'', ''Connection: close'', []]"

definition MALFORMED_HOST_REQUEST :: bytes where
  "MALFORMED_HOST_REQUEST =
     crlf_lines [''GET / HTTP/1.1'', ''Host: one.example'', ''Host: two.example'', []]"

definition MISSING_HOST_REQUEST :: bytes where
  "MISSING_HOST_REQUEST =
     crlf_lines [''GET / HTTP/1.1'', ''Connection: close'', []]"

definition OVERSIZED_REQUEST_FIELD :: bytes where
  "OVERSIZED_REQUEST_FIELD =
     crlf_lines [''GET / HTTP/1.1'', ''Host: localhost''] @ ''X-Oversized: '' @
     replicate 1100 CHR ''A'' @ crlf_lines [[], ''Connection: close'', []]"

definition GET_WITH_BODY :: bytes where
  "GET_WITH_BODY =
     crlf_lines [''GET /cgi/echo.cgi?normal HTTP/1.1'', ''Host: localhost'',
     ''Content-Length: 4'', ''Connection: close'', []] @ ''seed''"

definition STATUS_STATISTICS_REQUEST :: bytes where
  "STATUS_STATISTICS_REQUEST =
     crlf_lines [''GET /server-statistics HTTP/1.1'', ''Host: localhost'',
     ''Connection: close'', []]"

definition WEBSOCKET_UPGRADE :: bytes where
  "WEBSOCKET_UPGRADE =
     crlf_lines [''GET /ws/ HTTP/1.1'', ''Host: localhost'', ''Upgrade: websocket'',
     ''Connection: Upgrade'', ''Sec-WebSocket-Version: 13'',
     ''Sec-WebSocket-Key: MDEyMzQ1Njc4OWFiY2RlZg=='', []]"

definition WSTUNNEL_UPGRADE :: bytes where
  "WSTUNNEL_UPGRADE =
     crlf_lines [''GET /ws/ HTTP/1.1'', ''Host: localhost'', ''Upgrade: websocket'',
     ''Connection: Upgrade'', ''Sec-WebSocket-Version: 13'',
     ''Sec-WebSocket-Key: MDEyMzQ1Njc4OWFiY2RlZg=='', ''Origin: http://localhost'', []]"

definition CONNECT_REQUEST :: bytes where
  "CONNECT_REQUEST =
     crlf_lines [''CONNECT :5602 HTTP/1.1'', ''Host: localhost'', []]"

definition HAPROXY_V1_GET :: bytes where
  "HAPROXY_V1_GET =
     crlf_lines [''PROXY TCP4 192.0.2.1 127.0.0.1 12345 80''] @ GET_ROOT"

definition HAPROXY_V1_UNKNOWN :: bytes where
  "HAPROXY_V1_UNKNOWN =
     crlf_lines [''PROXY UNKNOWN''] @ GET_ROOT"

definition PROXY_REQUESTS :: "bytes list" where
  "PROXY_REQUESTS =
     [crlf_lines [''GET /proxy/files/index.txt HTTP/1.1'', ''Host: proxy.example'',
     ''Forwarded: for=192.0.2.60;proto=https'', ''Connection: close'', []],
     crlf_lines [''POST /proxy/cgi/echo.cgi?normal HTTP/1.1'', ''Host: proxy.example'',
     ''Content-Length: 4'', ''Connection: close'', []] @ ''seed'',
     crlf_lines [''GET /gateway/files/index.txt HTTP/1.1'', ''Host: gateway.example'',
     ''Connection: close'', []], crlf_lines [''GET /gateway/ws/ HTTP/1.1'',
     ''Host: gateway.example'', ''Connection: Upgrade'', ''Upgrade: websocket'',
     ''Sec-WebSocket-Version: 13'', ''Sec-WebSocket-Key: MDEyMzQ1Njc4OWFiY2RlZg=='', []]]"

definition BACKEND_RESPONSE_MODES :: "bytes list" where
  "BACKEND_RESPONSE_MODES =
     [''normal'', ''chunked-trailers'', ''100'', ''103'', ''interim'', ''early-close'',
     ''malformed-headers'', ''truncated-headers'', ''malformed-chunk'', ''truncated-chunk'',
     ''redirect-cookie'', ''upgrade'', ''partial'']"

definition BACKEND_PROXY_REQUESTS :: "bytes list" where
  "BACKEND_PROXY_REQUESTS =
     map (\<lambda>m. encoded_request (''/proxy/'' @ m) (crlf_lines [''X-Backend-Seed: proxy'']))
       BACKEND_RESPONSE_MODES"

definition BACKEND_GATEWAY_REQUESTS :: "bytes list" where
  "BACKEND_GATEWAY_REQUESTS =
     map (\<lambda>m. encoded_request (''/gateway/'' @ m) (crlf_lines [''X-Backend-Seed: gateway'']))
       BACKEND_RESPONSE_MODES"

definition LEGACY_PROXY_REQUESTS :: "bytes list" where
  "LEGACY_PROXY_REQUESTS =
     map (\<lambda>m. ''GET /legacy-proxy/'' @ m @ crlf_lines ['' HTTP/1.1'', ''Host: legacy.example'',
            ''Forwarded: for=192.0.2.44;proto=https'', ''Connection: close'', []])
       BACKEND_RESPONSE_MODES"

definition BACKEND_FASTCGI_REQUESTS :: "bytes list" where
  "BACKEND_FASTCGI_REQUESTS =
     map (\<lambda>m. encoded_request (''/fastcgi/'' @ m) (crlf_lines [''X-Backend-Seed: fastcgi'']))
       BACKEND_RESPONSE_MODES"

definition BACKEND_SCGI_REQUESTS :: "bytes list" where
  "BACKEND_SCGI_REQUESTS =
     map (\<lambda>m. encoded_request (''/scgi/'' @ m) (crlf_lines [''X-Backend-Seed: scgi'']))
       BACKEND_RESPONSE_MODES"

definition BACKEND_FASTCGI_POST_HEADERS :: bytes where
  "BACKEND_FASTCGI_POST_HEADERS =
     crlf_lines [''POST /fastcgi/normal HTTP/1.1'', ''Host: localhost'',
     ''Content-Type: application/octet-stream'', ''Content-Length: 4'', ''Connection: close'',
     []]"

definition BACKEND_SCGI_POST_HEADERS :: bytes where
  "BACKEND_SCGI_POST_HEADERS =
     crlf_lines [''POST /scgi/normal HTTP/1.1'', ''Host: localhost'',
     ''Content-Type: application/octet-stream'', ''Content-Length: 4'', ''Connection: close'',
     []]"

definition BACKEND_UPGRADE_REQUEST :: bytes where
  "BACKEND_UPGRADE_REQUEST =
     crlf_lines [''GET /proxy/upgrade HTTP/1.1'', ''Host: proxy.example'',
     ''Connection: Upgrade'', ''Upgrade: backend-echo'', []]"

definition BACKEND_GATEWAY_UPGRADE_REQUEST :: bytes where
  "BACKEND_GATEWAY_UPGRADE_REQUEST =
     crlf_lines [''GET /gateway/upgrade HTTP/1.1'', ''Host: gateway.example'',
     ''Connection: Upgrade'', ''Upgrade: backend-echo'', []]"

definition WSTUNNEL_BACKEND_REQUEST :: bytes where
  "WSTUNNEL_BACKEND_REQUEST =
     crlf_lines [''GET /normal HTTP/1.1'', ''Host: websocket-backend'', ''Connection: close'',
     []]"

definition BACKEND_CONNECT_TUNNEL_REQUESTS :: "bytes list" where
  "BACKEND_CONNECT_TUNNEL_REQUESTS =
     [crlf_lines [''CONNECT :6501 HTTP/1.1'', ''Host: localhost'', []],
     crlf_lines [''GET /normal HTTP/1.1'', ''Host: tunneled.example'', ''Connection: close'',
     []]]"

definition FORWARDED_CHAIN_REQUESTS :: "bytes list" where
  "FORWARDED_CHAIN_REQUESTS =
     [crlf_lines [''GET / HTTP/1.1'', ''Host: original.example'',
     ''Forwarded: for=192.0.2.10;proto=https;host=forwarded.example, for=198.51.100.7'',
     ''Connection: close'', []], crlf_lines [''GET / HTTP/1.1'', ''Host: localhost'',
     ''X-Forwarded-For: 192.0.2.1, 198.51.100.2'', ''X-Real-IP: 203.0.113.9'',
     ''Connection: close'', []]]"

definition FORWARDED_IPV6_REQUEST :: bytes where
  "FORWARDED_IPV6_REQUEST =
     crlf_lines [''GET /files/index.txt HTTP/1.1'', ''Host: original.example'',
     ''Forwarded: for='' @ dq @ ''[2001:db8::1]:1234'' @ dq @ '';by=_edge;proto=https;host='' @
     dq @ ''one.example:443'' @ dq @ '';remote_user='' @ dq @ ''fuzz user'' @ dq,
     ''Connection: close'', []]"

definition HAPROXY_V1_TCP6_FORWARDED :: bytes where
  "HAPROXY_V1_TCP6_FORWARDED =
     crlf_lines [''PROXY TCP6 2001:db8::10 2001:db8::20 12345 80''] @ FORWARDED_IPV6_REQUEST"

definition ACCESSLOG_FIELDS_REQUEST :: bytes where
  "ACCESSLOG_FIELDS_REQUEST =
     crlf_lines [''GET /files/index.txt?access=log HTTP/1.1'', ''Host: access.example'',
     ''User-Agent: FuzzAgent/1.0 '' @ [CHR 0xE2] @ [CHR 0x98] @ [CHR 0x83],
     ''Cookie: fuzz=a%20b; other='' @ dq @ ''quoted'' @ dq, ''Connection: keep-alive'', []]"

definition ADMIN_REQUESTS :: "bytes list" where
  "ADMIN_REQUESTS =
     map (\<lambda>path. encoded_request path [])
       [''/admin/server-status?auto'', ''/admin/server-config'', ''/admin/server-statistics'']"

definition STATUS_VARIANT_REQUESTS :: "bytes list" where
  "STATUS_VARIANT_REQUESTS =
     map (\<lambda>path. encoded_request path [])
       [''/server-status?json'', ''/server-status?jsonp=Fuzz_cb'', ''/server-status?jsonp=1bad'',
        ''/admin/server-status?json'', ''/admin/server-status?jsonp=Fuzz_cb'']"

definition STACK_REQUESTS :: "bytes list" where
  "STACK_REQUESTS =
     [encoded_request ''/stack-alias/index.txt'' [], encoded_request ''/stack-redirect'' [],
     encoded_request ''/stack-rewrite/files/index.txt'' [],
     encoded_request ''/ssi/raw.ssi'' []]"

definition SSI_EDGE_REQUESTS :: "bytes list" where
  "SSI_EDGE_REQUESTS =
     [encoded_request ''/ssi/index.shtml'' [], crlf_lines [''HEAD /ssi/index.shtml HTTP/1.1'',
     ''Host: localhost'', ''Connection: close'', []],
     encoded_request ''/ssi/include.shtml'' [], encoded_request ''/ssi/nested.shtml'' []]"

definition SSI_EXEC_REQUEST :: bytes where
  "SSI_EXEC_REQUEST =
     encoded_request ''/ssi/exec.shtml'' []"

definition ROUTING_INTERACTION_REQUESTS :: "bytes list" where
  "ROUTING_INTERACTION_REQUESTS =
     [crlf_lines [''GET /route-alias/index.txt HTTP/1.1'', ''Host: routes.example'',
     ''Connection: close'', []], crlf_lines [''GET /route-rewrite/index.txt HTTP/1.1'',
     ''Host: routes.example'', ''Connection: close'', []],
     crlf_lines [''GET /route-redirect HTTP/1.1'', ''Host: routes.example'',
     ''Connection: close'', []], crlf_lines [''GET /~fuzz/ HTTP/1.1'',
     ''Host: routes.example'', ''Connection: close'', []]]"

definition CHUNKED_EXTENSION_REQUEST :: bytes where
  "CHUNKED_EXTENSION_REQUEST =
     crlf_lines [''POST /cgi/echo.cgi?normal HTTP/1.1'', ''Host: localhost'',
     ''Transfer-Encoding: chunked'', ''Trailer: Test-Trailer'', ''Connection: close'', [],
     ''4;name=value'', ''seed'', ''3;quoted='' @ dq @ ''yes'' @ dq, ''xyz'', ''0'',
     ''Test-Trailer: finished'', []]"

definition CHUNKED_FRAGMENT_PACKETS :: "bytes list" where
  "CHUNKED_FRAGMENT_PACKETS =
     [crlf_lines [''POST /cgi/echo.cgi?normal HTTP/1.1'', ''Host: localhost'',
     ''Transfer-Encoding: chunked'', ''Trailer: Test-Trailer'', ''Connection: close'', []] @
     ''4;fragment=yes'' @ [CHR 0x0D], [CHR 0x0A] @ ''se'', ''ed'' @ [CHR 0x0D],
     crlf_lines [[CHR 0x0A] @ ''0'', ''Test-Trailer: finished''], crlf_lines [[]]]"

definition WEBDAV_LIFECYCLE_REQUESTS :: "bytes list" where
  "WEBDAV_LIFECYCLE_REQUESTS =
     [crlf_lines [''MKCOL /dav/corpus-chain HTTP/1.1'', ''Host: localhost'',
     ''Content-Length: 0'', ''Connection: keep-alive'', []],
     crlf_lines [''PUT /dav/corpus-chain/source.txt HTTP/1.1'', ''Host: localhost'',
     ''Content-Length: 16'', ''Connection: keep-alive'', []] @ ''coverage-seed-01'',
     crlf_lines [''COPY /dav/corpus-chain/source.txt HTTP/1.1'', ''Host: localhost'',
     ''Destination: /dav/corpus-chain/copied.txt'', ''Overwrite: T'',
     ''Connection: keep-alive'', []],
     crlf_lines [''PROPFIND /dav/corpus-chain/copied.txt HTTP/1.1'', ''Host: localhost'',
     ''Depth: 0'', ''Content-Length: 0'', ''Connection: keep-alive'', []],
     crlf_lines [''MOVE /dav/corpus-chain/copied.txt HTTP/1.1'', ''Host: localhost'',
     ''Destination: /dav/corpus-chain/moved.txt'', ''Overwrite: T'',
     ''Connection: keep-alive'', []],
     crlf_lines [''DELETE /dav/corpus-chain/source.txt HTTP/1.1'', ''Host: localhost'',
     ''Connection: keep-alive'', []],
     crlf_lines [''DELETE /dav/corpus-chain/moved.txt HTTP/1.1'', ''Host: localhost'',
     ''Connection: keep-alive'', []], crlf_lines [''DELETE /dav/corpus-chain HTTP/1.1'',
     ''Host: localhost'', ''Depth: infinity'', ''Connection: close'', []]]"

definition WEBDAV_TREE_REQUESTS :: "bytes list" where
  "WEBDAV_TREE_REQUESTS =
     [crlf_lines [''MKCOL /dav/corpus-tree HTTP/1.1'', ''Host: localhost'',
     ''Content-Length: 0'', ''Connection: keep-alive'', []],
     crlf_lines [''MKCOL /dav/corpus-tree/child HTTP/1.1'', ''Host: localhost'',
     ''Content-Length: 0'', ''Connection: keep-alive'', []],
     crlf_lines [''PUT /dav/corpus-tree/child/item.txt HTTP/1.1'', ''Host: localhost'',
     ''Content-Length: 9'', ''Connection: keep-alive'', []] @ ''tree-seed'',
     crlf_lines [''COPY /dav/corpus-tree HTTP/1.1'', ''Host: localhost'',
     ''Destination: /dav/corpus-tree-copy'', ''Depth: infinity'', ''Overwrite: T'',
     ''Connection: keep-alive'', []], crlf_lines [''PROPFIND /dav/corpus-tree-copy/ HTTP/1.1'',
     ''Host: localhost'', ''Depth: infinity'', ''Content-Length: 0'',
     ''Connection: keep-alive'', []], crlf_lines [''DELETE /dav/corpus-tree-copy HTTP/1.1'',
     ''Host: localhost'', ''Depth: infinity'', ''Connection: keep-alive'', []],
     crlf_lines [''DELETE /dav/corpus-tree HTTP/1.1'', ''Host: localhost'',
     ''Depth: infinity'', ''Connection: close'', []]]"

definition WEBDAV_PARTIAL_PUT_REQUESTS :: "bytes list" where
  "WEBDAV_PARTIAL_PUT_REQUESTS =
     [crlf_lines [''PUT /dav/corpus-partial.txt HTTP/1.1'', ''Host: localhost'',
     ''Content-Length: 6'', ''Connection: keep-alive'', []] @ ''abcdef'',
     crlf_lines [''PUT /dav/corpus-partial.txt HTTP/1.1'', ''Host: localhost'',
     ''Content-Range: bytes 1-2/*'', ''Content-Length: 2'', ''Connection: keep-alive'', []] @
     ''XY'', crlf_lines [''GET /dav/corpus-partial.txt HTTP/1.1'', ''Host: localhost'',
     ''Connection: keep-alive'', []], crlf_lines [''DELETE /dav/corpus-partial.txt HTTP/1.1'',
     ''Host: localhost'', ''Connection: close'', []]]"

definition CONNECT_TUNNEL_REQUESTS :: "bytes list" where
  "CONNECT_TUNNEL_REQUESTS =
     [crlf_lines [''CONNECT localhost:5602 HTTP/1.1'', ''Host: localhost:5602'',
     ''Connection: keep-alive'', []], crlf_lines [''GET /files/index.txt HTTP/1.1'',
     ''Host: localhost'', ''Connection: close'', []]]"

definition LISTING_CACHE_REQUESTS :: "bytes list" where
  "LISTING_CACHE_REQUESTS =
     [crlf_lines [''GET /listing/ HTTP/1.1'', ''Host: localhost'', ''Connection: keep-alive'',
     []], crlf_lines [''GET /listing/ HTTP/1.1'', ''Host: localhost'',
     ''Connection: keep-alive'', []], crlf_lines [''GET /listing/?json HTTP/1.1'',
     ''Host: localhost'', ''Accept: application/json'', ''Connection: close'', []]]"

definition DEFLATE_CACHE_REQUESTS :: "bytes list" where
  "DEFLATE_CACHE_REQUESTS =
     [crlf_lines [''GET /files/large.txt HTTP/1.1'', ''Host: localhost'',
     ''Accept-Encoding: zstd'', ''Connection: keep-alive'', []],
     crlf_lines [''GET /files/large.txt HTTP/1.1'', ''Host: localhost'',
     ''Accept-Encoding: zstd'', ''Connection: close'', []]]"

definition H2_CONNECTION_PREFACE :: bytes where
  "H2_CONNECTION_PREFACE =
     crlf_lines [''PRI * HTTP/2.0'', [], ''SM'', []]"

end
