(* ===== verification/Http2.thy ===== *)
theory Http2
  imports Prelude
begin

text \<open>
  The HTTP/2 and WebSocket encoders of normalize-corpus-flags.py: \<open>h2_frame\<close>, the HPACK
  encoders \<open>hpack_integer\<close>, \<open>hpack_raw_string\<close>, \<open>hpack_literal\<close>,
  \<open>hpack_literal_name\<close>, the header blocks \<open>h2_request_headers\<close> and
  \<open>h2_extended_connect_headers\<close>, and \<open>websocket_client_frame\<close>. Their specification is
  what a peer does with the bytes: the readers \<open>read_int\<close>, \<open>read_field\<close>,
  \<open>read_h2_frame\<close> and \<open>read_ws_frame\<close> follow RFC 7541, RFC 9113 and RFC 6455, and the
  encoders are proved to be read back as what they were given.
\<close>

section \<open>HTTP/2 frames\<close>

definition h2_frame :: "nat \<Rightarrow> nat \<Rightarrow> nat \<Rightarrow> bytes \<Rightarrow> bytes res" where
  "h2_frame frame_type flags stream_id payload =
     (if length payload > 0xFFFFFF then Inl (ValueError ''HTTP/2 frame payload is too large'')
      else
        res_bind (to_bytes 3 (length payload)) (\<lambda>len.
        res_bind (byte1 frame_type) (\<lambda>t.
        res_bind (byte1 flags) (\<lambda>f.
        res_bind (to_bytes 4 (stream_id AND 0x7FFFFFFF)) (\<lambda>sid.
        Inr (len @ t @ f @ sid @ payload))))))"

section \<open>HPACK\<close>

function hpack_loop :: "bytes \<Rightarrow> nat \<Rightarrow> bytes" where
  "hpack_loop result v =
     (if v \<ge> 128 then hpack_loop (result @ [mk_byte ((v AND 0x7F) OR 0x80)]) (drop_bit 7 v)
      else result @ [mk_byte v])"
  by pat_completeness auto
termination
  by (relation "measure (\<lambda>(_, v). v)") (auto simp: drop_bit_eq_div)

declare hpack_loop.simps [simp del]

definition hpack_integer :: "nat \<Rightarrow> nat \<Rightarrow> nat \<Rightarrow> bytes res" where
  "hpack_integer v prefix_bits first_byte =
     (let prefix_max = push_bit prefix_bits 1 - 1 in
      if v < prefix_max then byte1 (first_byte OR v)
      else res_bind (byte1 (first_byte OR prefix_max)) (\<lambda>r. Inr (hpack_loop r (v - prefix_max))))"

definition hpack_raw_string :: "bytes \<Rightarrow> bytes res" where
  "hpack_raw_string v = res_bind (hpack_integer (length v) 7 0) (\<lambda>n. Inr (n @ v))"

definition hpack_literal :: "nat \<Rightarrow> bytes \<Rightarrow> bytes res" where
  "hpack_literal index v =
     res_bind (hpack_integer index 4 0) (\<lambda>i.
     res_bind (hpack_raw_string v) (\<lambda>s. Inr (i @ s)))"

definition hpack_literal_name :: "bytes \<Rightarrow> bytes \<Rightarrow> bytes res" where
  "hpack_literal_name name v =
     res_bind (hpack_raw_string name) (\<lambda>n.
     res_bind (hpack_raw_string v) (\<lambda>s. Inr ([mk_byte 0] @ n @ s)))"

definition h2_request_block :: "bytes \<Rightarrow> bytes \<Rightarrow> (bytes \<times> bytes) list \<Rightarrow> bytes res" where
  "h2_request_block meth path headers =
     res_bind (if meth = ''GET'' then Inr [mk_byte 0x82] else hpack_literal 2 meth)
       (\<lambda>method_field.
     res_bind (hpack_literal 4 path) (\<lambda>p.
     res_bind (hpack_literal 1 ''localhost'') (\<lambda>a.
     res_bind (res_map (\<lambda>(name, v). hpack_literal_name name v) headers) (\<lambda>hs.
     Inr (method_field @ [mk_byte 0x86] @ p @ a @ concat hs)))))"

definition h2_request_headers ::
    "bytes \<Rightarrow> bytes \<Rightarrow> bool \<Rightarrow> (bytes \<times> bytes) list \<Rightarrow> nat \<Rightarrow> bytes res" where
  "h2_request_headers meth path end_stream headers stream_id =
     res_bind (h2_request_block meth path headers) (\<lambda>block.
     h2_frame 0x01 (0x04 OR (if end_stream then 0x01 else 0)) stream_id block)"

definition h2_extended_connect_headers :: "bytes \<Rightarrow> nat \<Rightarrow> bytes res" where
  "h2_extended_connect_headers path stream_id =
     res_bind (hpack_literal 2 ''CONNECT'') (\<lambda>m.
     res_bind (hpack_literal 4 path) (\<lambda>p.
     res_bind (hpack_literal 1 ''localhost'') (\<lambda>a.
     res_bind (hpack_literal_name '':protocol'' ''websocket'') (\<lambda>h1.
     res_bind (hpack_literal_name ''sec-websocket-version'' ''13'') (\<lambda>h2.
     res_bind (hpack_literal_name ''origin'' ''http://localhost'') (\<lambda>h3.
     h2_frame 0x01 0x04 stream_id (m @ [mk_byte 0x86] @ p @ a @ h1 @ h2 @ h3)))))))"

section \<open>WebSocket client frames\<close>

definition ws_mask :: bytes where
  "ws_mask = [mk_byte 0x11, mk_byte 0x22, mk_byte 0x33, mk_byte 0x44]"

definition websocket_client_frame :: "bytes \<Rightarrow> nat \<Rightarrow> bytes res" where
  "websocket_client_frame payload opcode =
     (if length payload > 125 then Inl (ValueError ''seed websocket payload is too large'')
      else
        let masked = map (\<lambda>(index, byte).
              mk_byte (byte_val byte XOR byte_val (ws_mask ! (index AND 3))))
              (enumerate 0 payload) in
        res_bind (byte1 (0x80 OR opcode)) (\<lambda>b0.
        res_bind (byte1 (0x80 OR length payload)) (\<lambda>b1.
        Inr (b0 @ b1 @ ws_mask @ masked))))"

section \<open>Readers\<close>

fun read_int_tail :: "bytes \<Rightarrow> (nat \<times> bytes) option" where
  "read_int_tail [] = None"
| "read_int_tail (c # r) =
     (if byte_val c < 128 then Some (byte_val c, r)
      else map_option (\<lambda>(v, r'). (byte_val c - 128 + 128 * v, r')) (read_int_tail r))"

text \<open>RFC 7541, 5.1: an integer with a \<open>k\<close>-bit prefix; the high bits are not part of it.\<close>

definition read_int :: "nat \<Rightarrow> bytes \<Rightarrow> (nat \<times> bytes) option" where
  "read_int k d =
     (case d of [] \<Rightarrow> None
      | c # r \<Rightarrow>
          let p = byte_val c mod 2 ^ k in
          if p < 2 ^ k - 1 then Some (p, r)
          else map_option (\<lambda>(v, r'). (p + v, r')) (read_int_tail r))"

text \<open>RFC 7541, 5.2, for strings that are not Huffman coded.\<close>

definition read_str :: "bytes \<Rightarrow> (bytes \<times> bytes) option" where
  "read_str d =
     (case d of [] \<Rightarrow> None
      | c # _ \<Rightarrow>
          if byte_val c \<ge> 128 then None
          else case read_int 7 d of
                 None \<Rightarrow> None
               | Some (n, r) \<Rightarrow> if n > length r then None else Some (take n r, drop n r))"

text \<open>RFC 7541, appendix A: the first entries of the static table.\<close>

definition static_table :: "(bytes \<times> bytes) list" where
  "static_table =
     [('':authority'', ''''), ('':method'', ''GET''), ('':method'', ''POST''), ('':path'', ''/''),
      ('':path'', ''/index.html''), ('':scheme'', ''http''), ('':scheme'', ''https'')]"

definition static_entry :: "nat \<Rightarrow> (bytes \<times> bytes) option" where
  "static_entry i =
     (if 0 < i \<and> i \<le> length static_table then Some (static_table ! (i - 1)) else None)"

text \<open>RFC 7541, 6.1 and 6.2.2: an indexed field, or a literal without indexing.\<close>

definition read_field :: "bytes \<Rightarrow> ((bytes \<times> bytes) \<times> bytes) option" where
  "read_field d =
     (case d of [] \<Rightarrow> None
      | c # _ \<Rightarrow>
          if byte_val c \<ge> 128 then
            (case read_int 7 d of None \<Rightarrow> None
             | Some (i, r) \<Rightarrow> map_option (\<lambda>e. (e, r)) (static_entry i))
          else if byte_val c < 16 then
            (case read_int 4 d of None \<Rightarrow> None
             | Some (i, r) \<Rightarrow>
                 if i = 0 then
                   (case read_str r of None \<Rightarrow> None
                    | Some (n, r') \<Rightarrow> map_option (\<lambda>(v, r''). ((n, v), r'')) (read_str r'))
                 else
                   (case static_entry i of None \<Rightarrow> None
                    | Some (n, _) \<Rightarrow> map_option (\<lambda>(v, r'). ((n, v), r')) (read_str r)))
          else None)"

type_synonym h2_item = "nat \<times> nat \<times> nat \<times> bytes"

text \<open>RFC 9113, 4.1: length, type, flags, stream identifier (its high bit ignored), payload.\<close>

definition read_h2_frame :: "bytes \<Rightarrow> (h2_item \<times> bytes) option" where
  "read_h2_frame d =
     (if length d < 9 then None
      else let n = from_bytes (take 3 d); r = drop 9 d in
        if n > length r then None
        else Some ((byte_val (d ! 3), byte_val (d ! 4), from_bytes (slice d 5 9) mod 2 ^ 31,
                    take n r), drop n r))"

text \<open>RFC 6455, 5.2, for a final masked frame with a 7-bit length: opcode and payload.\<close>

definition read_ws_frame :: "bytes \<Rightarrow> ((nat \<times> bytes) \<times> bytes) option" where
  "read_ws_frame d =
     (if length d < 6 then None
      else
        let n = byte_val (d ! 1) mod 128; mask = slice d 2 6; r = drop 6 d in
        if byte_val (d ! 0) < 128 \<or> byte_val (d ! 1) < 128 \<or> n > 125 \<or> n > length r then None
        else Some ((byte_val (d ! 0) mod 16,
              map (\<lambda>i. mk_byte (byte_val (r ! i) XOR byte_val (mask ! (i mod 4)))) [0..<n]),
              drop n r))"

section \<open>HPACK is read back\<close>

lemma hpack_byte: "(v::nat) < 256 \<Longrightarrow> 128 \<le> v \<Longrightarrow> mk_byte v = mk_byte (v - 128 + 128)"
  by simp

lemma low_bits: "((v::nat) AND 0x7F) OR 0x80 = v mod 128 + 128"
  using and_mask_mod [of v 7] or_low_add [of "v mod 128" 7 1] by (simp add: or.commute)

lemma hpack_loop_acc: "hpack_loop acc v = acc @ hpack_loop [] v"
proof (induction v arbitrary: acc rule: less_induct)
  case (less v)
  show ?case
  proof (cases "v \<ge> 128")
    case True
    then have lt: "drop_bit 7 v < v" by (simp add: drop_bit_eq_div)
    let ?b = "[mk_byte ((v AND 0x7F) OR 0x80)]"
    have "hpack_loop acc v = hpack_loop (acc @ ?b) (drop_bit 7 v)"
      using True by (simp add: hpack_loop.simps [of acc v])
    also have "\<dots> = acc @ ?b @ hpack_loop [] (drop_bit 7 v)"
      using less.IH [OF lt, of "acc @ ?b"] by simp
    also have "?b @ hpack_loop [] (drop_bit 7 v) = hpack_loop [] v"
      using True less.IH [OF lt, of ?b] by (simp add: hpack_loop.simps [of "[]" v])
    finally show ?thesis .
  next
    case False
    then show ?thesis by (simp add: hpack_loop.simps)
  qed
qed

lemma hpack_loop_step:
  "hpack_loop [] v =
     (if v \<ge> 128 then mk_byte (v mod 128 + 128) # hpack_loop [] (v div 128) else [mk_byte v])"
  using hpack_loop_acc [of "[mk_byte ((v AND 0x7F) OR 0x80)]" "drop_bit 7 v"]
  by (subst hpack_loop.simps) (simp add: low_bits drop_bit_eq_div)

lemma read_int_tail_loop: "read_int_tail (hpack_loop [] v @ rest) = Some (v, rest)"
proof (induction v rule: less_induct)
  case (less v)
  show ?case
  proof (cases "v \<ge> 128")
    case True
    then have "read_int_tail (hpack_loop [] (v div 128) @ rest) = Some (v div 128, rest)"
      by (intro less.IH) simp
    moreover have "v mod 128 + 128 < 256" by (simp add: mod_less_divisor less_le_trans)
    moreover have "v mod 128 + 128 * (v div 128) = v" by simp
    ultimately show ?thesis using True by (subst hpack_loop_step) simp
  next
    case False
    then show ?thesis by (subst hpack_loop_step) simp
  qed
qed

lemma hpack_integer_reads:
  assumes "k \<le> 8" "a < 2 ^ (8 - k)"
  shows "\<exists>d. hpack_integer v k (2 ^ k * a) = Inr d \<and> d \<noteq> []
    \<and> byte_val (hd d) div 2 ^ k = a \<and> (\<forall>rest. read_int k (d @ rest) = Some (v, rest))"
proof -
  define m where "m = (2::nat) ^ k"
  have m: "0 < m" by (simp add: m_def)
  have "2 ^ (8 - k) * m = 256"
    using assms(1) by (simp add: m_def power_add [symmetric])
  moreover have "a + 1 \<le> 2 ^ (8 - k)" using assms(2) by simp
  ultimately have "(a + 1) * m \<le> 256" using mult_le_mono1 by metis
  then have fits: "m * a + x < 256" if "x < m" for x
    using that by (simp add: algebra_simps)
  have bits: "m * a OR x = m * a + x" if "x < m" for x
    using that by (simp add: m_def or_low_add)
  show ?thesis
  proof (cases "v < m - 1")
    case True
    then have "hpack_integer v k (2 ^ k * a) = Inr [mk_byte (m * a + v)]"
      using bits [of v] fits [of v] m
      by (simp add: hpack_integer_def push_bit_eq_mult flip: m_def)
    then show ?thesis
      using True fits [of v] m by (auto simp: read_int_def simp flip: m_def)
  next
    case False
    then have "hpack_integer v k (2 ^ k * a) =
        Inr (mk_byte (m * a + (m - 1)) # hpack_loop [] (v - (m - 1)))"
      using bits [of "m - 1"] fits [of "m - 1"] m hpack_loop_acc [of "[mk_byte (m * a + (m - 1))]"]
      by (simp add: hpack_integer_def push_bit_eq_mult flip: m_def)
    moreover have "read_int k (mk_byte (m * a + (m - 1)) # hpack_loop [] (v - (m - 1)) @ rest)
        = Some (v, rest)" for rest
    proof -
      have "byte_val (mk_byte (m * a + (m - 1))) mod m = m - 1"
        using fits [of "m - 1"] m mod_mult_self3 [of a m "m - 1"] by (simp add: mult.commute)
      then show ?thesis
        using False by (simp add: read_int_def Let_def read_int_tail_loop del: of_char_of flip: m_def)
    qed
    moreover have "byte_val (mk_byte (m * a + (m - 1))) div m = a"
    proof -
      have "(m * a + (m - 1)) div m = a" by (rule div_nat_eqI) (use m in simp_all)
      with fits [of "m - 1"] m show ?thesis by simp
    qed
    ultimately show ?thesis using m by (simp del: of_char_of flip: m_def)
  qed
qed


text \<open>The prefixes the program uses: four or seven bits, nothing above them.\<close>

lemma hpack_integer_low:
  assumes "k \<le> 8"
  obtains d where "hpack_integer v k 0 = Inr d" "d \<noteq> []" "byte_val (hd d) < 2 ^ k"
    "\<And>rest. read_int k (d @ rest) = Some (v, rest)"
proof -
  from hpack_integer_reads [OF assms, of 0 v] obtain d
    where d: "hpack_integer v k 0 = Inr d" "d \<noteq> []" "byte_val (hd d) div 2 ^ k = 0"
      "\<And>rest. read_int k (d @ rest) = Some (v, rest)" by auto
  from d(3) have "byte_val (hd d) < 2 ^ k"
    by (metis div_less_dividend div_greater_zero_iff gr_zeroI not_less zero_less_numeral zero_less_power)
  with d that show thesis by blast
qed

lemma hpack_raw_string_reads:
  obtains d where "hpack_raw_string v = Inr d" "d \<noteq> []"
    "\<And>rest. read_str (d @ rest) = Some (v, rest)"
proof -
  obtain n where n: "hpack_integer (length v) 7 0 = Inr n" "n \<noteq> []" "byte_val (hd n) < 2 ^ 7"
      "\<And>rest. read_int 7 (n @ rest) = Some (length v, rest)"
    by (rule hpack_integer_low [of 7 "length v"]) auto
  have "read_str ((n @ v) @ rest) = Some (v, rest)" for rest
    using n(2,3) n(4) [of "v @ rest"] by (cases n) (auto simp: read_str_def)
  moreover have "hpack_raw_string v = Inr (n @ v)"
    using n(1) by (simp add: hpack_raw_string_def)
  ultimately show thesis using that n(2) by blast
qed

lemma hpack_literal_reads:
  assumes "static_entry i = Some (name, w)" "i \<noteq> 0"
  obtains d where "hpack_literal i v = Inr d" "d \<noteq> []"
    "\<And>rest. read_field (d @ rest) = Some ((name, v), rest)"
proof -
  obtain n where n: "hpack_integer i 4 0 = Inr n" "n \<noteq> []" "byte_val (hd n) < 2 ^ 4"
      "\<And>rest. read_int 4 (n @ rest) = Some (i, rest)"
    by (rule hpack_integer_low [of 4 i]) auto
  obtain s where s: "hpack_raw_string v = Inr s"
      "\<And>rest. read_str (s @ rest) = Some (v, rest)"
    by (rule hpack_raw_string_reads [of v]) auto
  have "read_field ((n @ s) @ rest) = Some ((name, v), rest)" for rest
    using n(2,3) n(4) [of "s @ rest"] s(2) [of rest] assms
    by (cases n) (auto simp: read_field_def)
  moreover have "hpack_literal i v = Inr (n @ s)"
    using n(1) s(1) by (simp add: hpack_literal_def)
  ultimately show thesis using that n(2) by blast
qed

lemma hpack_literal_name_reads:
  obtains d where "hpack_literal_name name v = Inr d" "d \<noteq> []"
    "\<And>rest. read_field (d @ rest) = Some ((name, v), rest)"
proof -
  obtain n where n: "hpack_raw_string name = Inr n"
      "\<And>rest. read_str (n @ rest) = Some (name, rest)"
    by (rule hpack_raw_string_reads [of name]) auto
  obtain s where s: "hpack_raw_string v = Inr s"
      "\<And>rest. read_str (s @ rest) = Some (v, rest)"
    by (rule hpack_raw_string_reads [of v]) auto
  have "read_field ((mk_byte 0 # n @ s) @ rest) = Some ((name, v), rest)" for rest
    using n(2) [of "s @ rest"] s(2) [of rest]
    by (simp add: read_field_def read_int_def)
  moreover have "hpack_literal_name name v = Inr (mk_byte 0 # n @ s)"
    using n(1) s(1) by (simp add: hpack_literal_name_def)
  ultimately show thesis using that by blast
qed

section \<open>Header blocks\<close>

lemma read_indexed:
  "read_field (mk_byte 0x82 # rest) = Some (('':method'', ''GET''), rest)"
  "read_field (mk_byte 0x86 # rest) = Some (('':scheme'', ''http''), rest)"
  by (simp_all add: read_field_def read_int_def static_entry_def static_table_def)

lemma method_field_reads:
  obtains d where
    "(if meth = ''GET'' then Inr [mk_byte 0x82] else hpack_literal 2 meth) = Inr d" "d \<noteq> []"
    "\<And>rest. read_field (d @ rest) = Some (('':method'', meth), rest)"
proof (cases "meth = ''GET''")
  case True
  show thesis by (rule that [of "[mk_byte 0x82]"]) (simp_all only: True read_indexed append.simps, simp_all)
next
  case False
  obtain d where "hpack_literal 2 meth = Inr d" "d \<noteq> []"
    "\<And>rest. read_field (d @ rest) = Some (('':method'', meth), rest)"
    by (rule hpack_literal_reads [of 2 "'':method''" "''GET''" meth])
       (simp_all add: static_entry_def static_table_def)
  with False that show thesis by auto
qed

lemma header_list_reads:
  obtains hs where "res_map (\<lambda>(name, v). hpack_literal_name name v) headers = Inr hs"
    "parse_all read_field (concat hs) = Some headers"
proof (induction headers arbitrary: thesis)
  case Nil
  then show ?case by simp
next
  case (Cons h headers)
  obtain name v where h: "h = (name, v)" by (cases h)
  obtain hs where hs: "res_map (\<lambda>(name, v). hpack_literal_name name v) headers = Inr hs"
    "parse_all read_field (concat hs) = Some headers"
    using Cons.IH by blast
  obtain d where d: "hpack_literal_name name v = Inr d" "d \<noteq> []"
    "\<And>rest. read_field (d @ rest) = Some ((name, v), rest)"
    by (rule hpack_literal_name_reads [of name v]) auto
  show ?case
    by (rule Cons.prems [of "d # hs"]) (simp_all add: h hs d parse_all_item)
qed

lemma request_block_reads:
  obtains b where "h2_request_block meth path headers = Inr b"
    "parse_all read_field b =
       Some ([('':method'', meth), ('':scheme'', ''http''), ('':path'', path),
              ('':authority'', ''localhost'')] @ headers)"
proof -
  obtain m where m:
    "(if meth = ''GET'' then Inr [mk_byte 0x82] else hpack_literal 2 meth) = Inr m" "m \<noteq> []"
    "\<And>rest. read_field (m @ rest) = Some (('':method'', meth), rest)"
    by (rule method_field_reads [of meth]) auto
  obtain p where p: "hpack_literal 4 path = Inr p" "p \<noteq> []"
    "\<And>rest. read_field (p @ rest) = Some (('':path'', path), rest)"
    by (rule hpack_literal_reads [of 4 "'':path''" "''/''" path])
       (simp_all add: static_entry_def static_table_def)
  obtain a where a: "hpack_literal 1 ''localhost'' = Inr a" "a \<noteq> []"
    "\<And>rest. read_field (a @ rest) = Some (('':authority'', ''localhost''), rest)"
    by (rule hpack_literal_reads [of 1 "'':authority''" "[]" "''localhost''"])
       (simp_all add: static_entry_def static_table_def)
  obtain hs where hs: "res_map (\<lambda>(name, v). hpack_literal_name name v) headers = Inr hs"
    "parse_all read_field (concat hs) = Some headers"
    by (rule header_list_reads [of headers]) auto
  have s: "parse_all read_field ([mk_byte 0x86] @ rest) =
      map_option (Cons ('':scheme'', ''http'')) (parse_all read_field rest)" for rest
    by (rule parse_all_item) (simp_all only: read_indexed append.simps, simp_all)
  let ?b = "m @ [mk_byte 0x86] @ p @ a @ concat hs"
  have "h2_request_block meth path headers = Inr ?b"
    unfolding h2_request_block_def m(1) p(1) a(1) hs(1) by simp
  moreover have "parse_all read_field ?b =
      Some ([('':method'', meth), ('':scheme'', ''http''), ('':path'', path),
             ('':authority'', ''localhost'')] @ headers)"
    by (simp add: parse_all_item m(2,3) p(2,3) a(2,3) s [simplified] hs(2))
  ultimately show thesis by (rule that)
qed

section \<open>Frames are read back\<close>

lemma and_31: "(n::nat) AND 0x7FFFFFFF = n mod 2 ^ 31"
  using and_mask_mod [of n 31] by simp

lemma h2_frame_Inr_iff:
  "h2_frame t f sid p = Inr d \<longleftrightarrow>
     length p < 2 ^ 24 \<and> t < 256 \<and> f < 256
     \<and> d = be_bytes 3 (length p) @ [mk_byte t, mk_byte f] @ be_bytes 4 (sid mod 2 ^ 31) @ p"
proof -
  have "sid mod 2 ^ 31 < (256::nat) ^ 4"
    using mod_less_divisor [of "2 ^ 31" sid] by simp
  then show ?thesis
    by (auto simp: h2_frame_def to_bytes_Inr_iff byte1_def and_31)
qed

definition h2_wire :: "h2_item \<Rightarrow> bytes" where
  "h2_wire = (\<lambda>(t, f, sid, p). case h2_frame t f sid p of Inl _ \<Rightarrow> [] | Inr d \<Rightarrow> d)"

definition h2_item_ok :: "h2_item \<Rightarrow> bool" where
  "h2_item_ok = (\<lambda>(t, f, sid, p). t < 256 \<and> f < 256 \<and> sid < 2 ^ 31 \<and> length p < 2 ^ 24)"

lemma read_h2_frame_wire:
  assumes "t < 256" "f < 256" "length p < 2 ^ 24"
  shows "read_h2_frame
     ((be_bytes 3 (length p) @ [mk_byte t, mk_byte f] @ be_bytes 4 (sid mod 2 ^ 31) @ p) @ rest)
     = Some ((t, f, sid mod 2 ^ 31, p), rest)"
proof -
  have "sid mod 2 ^ 31 < (256::nat) ^ 4"
    using mod_less_divisor [of "2 ^ 31" sid] by simp
  then have s: "from_bytes (be_bytes 4 (sid mod 2 ^ 31)) = sid mod 2 ^ 31"
    by (rule from_be_bytes)
  have l: "from_bytes (be_bytes 3 (length p)) = length p"
    using assms by (intro from_be_bytes) simp
  show ?thesis
    using assms by (simp add: read_h2_frame_def slice_def nth_append l s [simplified])
qed

lemma h2_wire_eq:
  assumes "h2_item_ok (t, f, sid, p)"
  shows "h2_wire (t, f, sid, p) =
    be_bytes 3 (length p) @ [mk_byte t, mk_byte f] @ be_bytes 4 (sid mod 2 ^ 31) @ p"
proof -
  from assms have "h2_frame t f sid p = Inr (be_bytes 3 (length p) @ [mk_byte t, mk_byte f]
      @ be_bytes 4 (sid mod 2 ^ 31) @ p)"
    unfolding h2_frame_Inr_iff by (simp add: h2_item_ok_def)
  then show ?thesis by (simp add: h2_wire_def)
qed

interpretation h2: prefix_codec h2_wire read_h2_frame h2_item_ok
proof
  fix x rest
  assume ok: "h2_item_ok x"
  obtain t f sid p where x: "x = (t, f, sid, p)" by (cases x)
  from ok show "read_h2_frame (h2_wire x @ rest) = Some (x, rest)"
    using read_h2_frame_wire [of t f p sid rest] h2_wire_eq [of t f sid p]
    by (simp add: x h2_item_ok_def)
next
  fix x
  show "h2_item_ok x \<Longrightarrow> h2_wire x \<noteq> []"
    by (cases x) (simp add: h2_wire_eq)
qed

section \<open>Short strings and frames in closed form\<close>

lemma hpack_integer_short: "v < 2 ^ k - 1 \<Longrightarrow> v < 256 \<Longrightarrow> hpack_integer v k 0 = Inr [mk_byte v]"
  by (simp add: hpack_integer_def push_bit_eq_mult)

lemma hpack_raw_string_short:
  "length v < 127 \<Longrightarrow> hpack_raw_string v = Inr (mk_byte (length v) # v)"
  by (simp add: hpack_raw_string_def hpack_integer_short)

lemma hpack_literal_short:
  "i < 15 \<Longrightarrow> length v < 127 \<Longrightarrow> hpack_literal i v = Inr (mk_byte i # mk_byte (length v) # v)"
  by (simp add: hpack_literal_def hpack_integer_short hpack_raw_string_short)

lemma hpack_literal_name_short:
  "length n < 127 \<Longrightarrow> length v < 127 \<Longrightarrow>
     hpack_literal_name n v = Inr (mk_byte 0 # mk_byte (length n) # n @ mk_byte (length v) # v)"
  by (simp add: hpack_literal_name_def hpack_raw_string_short)

lemma h2_frame_eq:
  "length p < 2 ^ 24 \<Longrightarrow> t < 256 \<Longrightarrow> f < 256 \<Longrightarrow> h2_frame t f sid p =
     Inr (be_bytes 3 (length p) @ [mk_byte t, mk_byte f] @ be_bytes 4 (sid mod 2 ^ 31) @ p)"
  by (simp only: h2_frame_Inr_iff simp_thms)

section \<open>WebSocket frames are read back\<close>

lemma byte_xor_less: "byte_val a XOR byte_val b < 256"
proof -
  have "take_bit 8 (byte_val a XOR byte_val b) = byte_val a XOR byte_val b"
    by (simp add: take_bit_nat_eq_self)
  then show ?thesis using take_bit_nat_less_exp [of 8 "byte_val a XOR byte_val b"] by simp
qed

lemma byte_xor_twice: "mk_byte (byte_val (mk_byte (byte_val a XOR byte_val b)) XOR byte_val b) = a"
proof -
  have "byte_val (mk_byte (byte_val a XOR byte_val b)) = byte_val a XOR byte_val b"
    using byte_xor_less by (rule byte_val_mk_byte)
  then show ?thesis by (simp add: xor.assoc)
qed

lemma websocket_client_frame_eq:
  assumes "length payload \<le> 125" "opcode < 128"
  shows "websocket_client_frame payload opcode =
    Inr ([mk_byte (128 + opcode), mk_byte (128 + length payload)] @ ws_mask
      @ map (\<lambda>i. mk_byte (byte_val (payload ! i) XOR byte_val (ws_mask ! (i mod 4))))
            [0..<length payload])"
proof -
  have "map (\<lambda>(index, byte). mk_byte (byte_val byte XOR byte_val (ws_mask ! (index AND 3))))
          (enumerate 0 payload) =
        map (\<lambda>i. mk_byte (byte_val (payload ! i) XOR byte_val (ws_mask ! (i mod 4))))
            [0..<length payload]"
    using and_mask_mod [of _ 2]
    by (intro nth_equalityI) (simp_all add: nth_enumerate_eq)
  with assms or_low_add [of opcode 7 1] or_low_add [of "length payload" 7 1] show ?thesis
    by (simp add: websocket_client_frame_def)
qed

lemma read_ws_frame_client:
  assumes "length payload \<le> 125" "opcode < 16"
    "websocket_client_frame payload opcode = Inr d"
  shows "read_ws_frame (d @ rest) = Some ((opcode, payload), rest)"
proof -
  let ?m = "map (\<lambda>i. mk_byte (byte_val (payload ! i) XOR byte_val (ws_mask ! (i mod 4))))
              [0..<length payload]"
  let ?n = "length payload"
  have d: "d @ rest = mk_byte (128 + opcode) # mk_byte (128 + ?n) # ws_mask @ ?m @ rest"
    using websocket_client_frame_eq [OF assms(1), of opcode] assms(2,3) by simp
  have mask: "length ws_mask = 4" by (simp add: ws_mask_def)
  have un: "map (\<lambda>i. mk_byte (byte_val ((?m @ rest) ! i) XOR byte_val (ws_mask ! (i mod 4))))
      [0..<?n] = payload"
    by (rule nth_equalityI) (simp_all add: nth_append byte_xor_twice del: of_char_of)
  have parts: "slice (d @ rest) 2 6 = ws_mask" "drop 6 (d @ rest) = ?m @ rest"
    by (simp_all add: d slice_def mask)
  have mods: "(128 + opcode) mod 16 = opcode" "(128 + ?n) mod 128 = ?n"
    using assms(1,2) mod_mult_self1 [of opcode 8 16] mod_add_self1 [of 128 ?n]
    by (simp_all add: add.commute)
  have heads: "byte_val ((d @ rest) ! 0) = 128 + opcode" "byte_val ((d @ rest) ! 1) = 128 + ?n"
    "6 \<le> length (d @ rest)"
    using assms(1,2) by (simp_all add: d mask)
  show ?thesis
    unfolding read_ws_frame_def Let_def heads parts mods un using heads(3) assms(1) by simp
qed

section \<open>Properties\<close>

text \<open>C5: the HPACK integers of the seeds are read back (RFC 7541, 5.1) whatever the width of
  the prefix and the pattern above it, at any value, and take no byte of what follows.\<close>

theorem hpack_integer_round_trip:
  assumes "k \<le> 8" and "a < 2 ^ (8 - k)"
  shows "\<exists>d. hpack_integer v k (2 ^ k * a) = Inr d \<and> d \<noteq> [] \<and> byte_val (hd d) div 2 ^ k = a
    \<and> (\<forall>rest. read_int k (d @ rest) = Some (v, rest))"
  using assms by (rule hpack_integer_reads)

lemma hpack_integer_round_trip_witness:
  "\<exists>d. hpack_integer 1337 5 (2 ^ 5 * 0) = Inr d \<and> d \<noteq> [] \<and> byte_val (hd d) div 2 ^ 5 = 0
    \<and> (\<forall>rest. read_int 5 (d @ rest) = Some (1337, rest))"
  by (rule hpack_integer_round_trip) simp_all

text \<open>C6: a request built by \<open>h2_request_headers\<close> is one HEADERS frame with END_HEADERS, and
  END_STREAM exactly as asked, whose block a peer decodes to the method, the scheme, the path,
  the authority and the extra headers, in this order; a block of 2^24 bytes or more is refused.\<close>

theorem h2_request_headers_decode:
  "\<exists>block. h2_request_block meth path headers = Inr block
     \<and> parse_all read_field block =
         Some ([('':method'', meth), ('':scheme'', ''http''), ('':path'', path),
                ('':authority'', ''localhost'')] @ headers)
     \<and> (if length block < 2 ^ 24 then
          \<exists>f. h2_request_headers meth path end_stream headers sid = Inr f
            \<and> read_h2_frame f =
                Some ((1, if end_stream then 5 else 4, sid mod 2 ^ 31, block), [])
        else h2_request_headers meth path end_stream headers sid =
               Inl (ValueError ''HTTP/2 frame payload is too large''))"
proof -
  obtain b where b: "h2_request_block meth path headers = Inr b"
    "parse_all read_field b =
       Some ([('':method'', meth), ('':scheme'', ''http''), ('':path'', path),
              ('':authority'', ''localhost'')] @ headers)"
    by (rule request_block_reads [of meth path headers]) auto
  define fl :: nat where "fl = (if end_stream then 5 else 4)"
  have fl: "0x04 OR (if end_stream then 0x01 else 0) = fl" "fl < 256"
    by (simp_all add: fl_def)
  have req: "h2_request_headers meth path end_stream headers sid = h2_frame 1 fl sid b"
    by (simp add: h2_request_headers_def b(1) fl)
  show ?thesis
  proof (cases "length b < 2 ^ 24")
    case True
    define f where "f = be_bytes 3 (length b) @ [mk_byte 1, mk_byte fl]
      @ be_bytes 4 (sid mod 2 ^ 31) @ b"
    have "h2_frame 1 fl sid b = Inr f"
      unfolding h2_frame_Inr_iff f_def using True fl(2) by simp
    moreover have "read_h2_frame f = Some ((1, fl, sid mod 2 ^ 31, b), [])"
      using read_h2_frame_wire [of 1 fl b sid "[]"] True fl(2) by (simp add: f_def)
    ultimately show ?thesis using b True req by (auto simp: fl_def)
  next
    case False
    then have "h2_frame 1 fl sid b = Inl (ValueError ''HTTP/2 frame payload is too large'')"
      by (simp add: h2_frame_def)
    with b False req show ?thesis by auto
  qed
qed

text \<open>C7: a connection written as a concatenation of \<open>h2_frame\<close>s is read back as the same
  frames, in order; so no two sequences of legal frames share a byte string.\<close>

theorem h2_frame_sequence:
  assumes "list_all h2_item_ok fs"
  shows "parse_all read_h2_frame (concat (map h2_wire fs)) = Some fs"
  using assms by (rule h2.parse_all_enc)

lemma h2_frame_sequence_witness:
  "parse_all read_h2_frame (concat (map h2_wire [(4, 0, 0, []), (6, 0, 0, ''fuzzping'')])) =
     Some [(4, 0, 0, []), (6, 0, 0, ''fuzzping'')]"
  by (rule h2_frame_sequence) (simp add: h2_item_ok_def)

text \<open>C8: a WebSocket client frame of at most 125 bytes is a final masked frame that a server
  unmasks to the payload and the opcode; a longer payload is refused.\<close>

theorem websocket_round_trip:
  assumes "opcode < 16"
  shows "if length payload \<le> 125 then
      \<exists>d. websocket_client_frame payload opcode = Inr d
        \<and> (\<forall>rest. read_ws_frame (d @ rest) = Some ((opcode, payload), rest))
    else websocket_client_frame payload opcode =
      Inl (ValueError ''seed websocket payload is too large'')"
proof (cases "length payload \<le> 125")
  case True
  with assms obtain d where "websocket_client_frame payload opcode = Inr d"
    using websocket_client_frame_eq [of payload opcode] by auto
  with True assms read_ws_frame_client show ?thesis by auto
qed (simp add: websocket_client_frame_def)

lemma websocket_round_trip_witness:
  "\<exists>d. websocket_client_frame ''ping'' 2 = Inr d
     \<and> (\<forall>rest. read_ws_frame (d @ rest) = Some ((2, ''ping''), rest))"
  using websocket_round_trip [of 2 "''ping''"] by simp

end
