(* ===== verification/Seeds.thy ===== *)
theory Seeds
  imports Seed_Requests Http2
begin

text \<open>
  The binary seeds of normalize-corpus-flags.py (PROXY protocol v2, WebSocket, HTTP/2) and
  \<open>seed_inputs\<close>, the list of inputs the corpus is seeded with. What the source computes with
  an encoder that can raise is a \<open>res\<close> here; that nothing raises, and that every seed is an
  input the harness runs, is proved below.
\<close>

section \<open>Binary HTTP/1 seeds\<close>

text \<open>Concatenation of byte strings whose computation may raise.\<close>

definition res_cat :: "bytes res list \<Rightarrow> bytes res" where
  "res_cat rs = res_bind (res_map (\<lambda>r. r) rs) (\<lambda>ds. Inr (concat ds))"

definition HAPROXY_V2_ADDRESS :: bytes where
  "HAPROXY_V2_ADDRESS =
     map mk_byte [192, 0, 2, 1, 127, 0, 0, 1] @ be_bytes 2 12345 @ be_bytes 2 80"

definition HAPROXY_V2_GET :: bytes where
  "HAPROXY_V2_GET =
     map mk_byte [0x0d, 0x0a, 0x0d, 0x0a, 0x00, 0x0d, 0x0a, 0x51, 0x55, 0x49, 0x54, 0x0a,
                  0x21, 0x11, 0x00, 0x0c]
     @ map mk_byte [192, 0, 2, 1, 127, 0, 0, 1] @ be_bytes 2 12345 @ be_bytes 2 80 @ GET_ROOT"

definition HAPROXY_V2_SSL :: bytes where
  "HAPROXY_V2_SSL =
     [mk_byte 0x01] @ be_bytes 4 0 @ map mk_byte [0x21, 0x00, 0x07] @ ''TLSv1.3''"

definition HAPROXY_V2_TLVS :: bytes where
  "HAPROXY_V2_TLVS =
     map mk_byte [0x01, 0x00, 0x02] @ ''h2''
     @ map mk_byte [0x02, 0x00, 0x0b] @ ''one.example''
     @ map mk_byte [0x05, 0x00, 0x04] @ ''seed''
     @ [mk_byte 0x20] @ be_bytes 2 (length HAPROXY_V2_SSL) @ HAPROXY_V2_SSL"

definition HAPROXY_V2_TLV_GET :: "bytes res" where
  "HAPROXY_V2_TLV_GET =
     res_bind (to_bytes 2 (length HAPROXY_V2_ADDRESS + length HAPROXY_V2_TLVS)) (\<lambda>len.
     Inr (map mk_byte [0x0d, 0x0a, 0x0d, 0x0a, 0x00, 0x0d, 0x0a, 0x51, 0x55, 0x49, 0x54, 0x0a]
       @ map mk_byte [0x21, 0x11] @ len @ HAPROXY_V2_ADDRESS @ HAPROXY_V2_TLVS
       @ crlf_lines [''GET /files/index.txt HTTP/1.1'', ''Host: original.example'']
       @ crlf_lines [''Connection: close'', []]))"

definition WSTUNNEL_BACKEND_FRAME :: "bytes res" where
  "WSTUNNEL_BACKEND_FRAME = websocket_client_frame WSTUNNEL_BACKEND_REQUEST 2"

text \<open>\<open>alphabet[i]\<close> past the end is an \<open>IndexError\<close>.\<close>

definition base36_pair :: "nat \<Rightarrow> bytes res" where
  "base36_pair v =
     (let alphabet = ''0123456789abcdefghijklmnopqrstuvwxyz'' in
      if v div 36 < length alphabet then Inr [alphabet ! (v div 36), alphabet ! (v mod 36)]
      else Inl IndexError)"

definition CGI_DENSE_HEADERS :: "bytes res" where
  "CGI_DENSE_HEADERS =
     res_bind (res_map (\<lambda>i. res_bind (base36_pair i) (\<lambda>p. Inr (''X'' @ p @ '':a'' @ crlf)))
                 [0..<1050]) (\<lambda>hs.
     Inr (crlf_lines [''GET /cgi/echo.cgi?normal HTTP/1.1'', ''Host: localhost''] @ concat hs
          @ crlf_lines [''Connection: close'', []]))"

section \<open>HTTP/2 seeds\<close>

definition H2_SETTINGS :: "bytes res" where
  "H2_SETTINGS = h2_frame 0x04 0 0 []"

definition H2_PREFACE :: "bytes res" where
  "H2_PREFACE = res_cat [Inr H2_CONNECTION_PREFACE, H2_SETTINGS]"

text \<open>\<open>h2_request_headers(b"GET", path)\<close> with the defaults of the source.\<close>

definition h2_get :: "bytes \<Rightarrow> bytes res" where
  "h2_get path = h2_request_headers ''GET'' path True [] 1"

definition H2_GET_ROOT :: "bytes res" where
  "H2_GET_ROOT = res_cat [H2_PREFACE, h2_get ''/'']"

definition H2_GET_STATUS :: "bytes res" where
  "H2_GET_STATUS = res_cat [H2_PREFACE, h2_get ''/server-status'']"

definition H2_CONTROL_FRAMES :: "bytes res" where
  "H2_CONTROL_FRAMES =
     res_cat [H2_PREFACE, h2_frame 0x04 0 0 (map mk_byte [0, 1, 0, 0, 0, 0]),
       h2_frame 0x06 0 0 ''fuzzping'', h2_frame 0x08 0 0 (map mk_byte [0, 0, 0x10, 0]),
       h2_get ''/'']"

definition H2_PUT_HEADERS :: "bytes res" where
  "H2_PUT_HEADERS = h2_request_headers ''PUT'' ''/dav/h2.txt'' False [] 1"

definition H2_PUT :: "bytes res" where
  "H2_PUT = res_cat [H2_PREFACE, H2_PUT_HEADERS, h2_frame 0x00 0x01 1 ''seed'']"

definition H2_GET_CGI :: "bytes res" where
  "H2_GET_CGI =
     res_cat [H2_PREFACE, h2_request_headers ''GET'' ''/cgi/echo.cgi?normal'' True
       [(''accept-encoding'', ''gzip'')] 1]"

definition H2_GET_PROXY :: "bytes res" where
  "H2_GET_PROXY = res_cat [H2_PREFACE, h2_get ''/h2-proxy/files/index.txt'']"

definition H2_GET_NORMALIZED :: "bytes res" where
  "H2_GET_NORMALIZED = res_cat [H2_PREFACE, h2_get ''/files/%69ndex.txt'']"

definition H2_BACKEND_PROXY_REQUESTS :: "bytes list res" where
  "H2_BACKEND_PROXY_REQUESTS =
     res_map (\<lambda>m. res_cat [H2_PREFACE, h2_get (''/h2-proxy/'' @ m)]) BACKEND_RESPONSE_MODES"

definition H2_BACKEND_FASTCGI_REQUESTS :: "bytes list res" where
  "H2_BACKEND_FASTCGI_REQUESTS =
     res_map (\<lambda>m. res_cat [H2_PREFACE, h2_get (''/h2-fastcgi/'' @ m)]) BACKEND_RESPONSE_MODES"

definition H2_BACKEND_SCGI_REQUESTS :: "bytes list res" where
  "H2_BACKEND_SCGI_REQUESTS =
     res_map (\<lambda>m. res_cat [H2_PREFACE, h2_get (''/h2-scgi/'' @ m)]) BACKEND_RESPONSE_MODES"

definition H2_split_headers :: "bytes res" where
  "H2_split_headers = res_bind (h2_get ''/listing/?json'') (\<lambda>h. Inr (drop 9 h))"

definition H2_CONTINUATION :: "bytes res" where
  "H2_CONTINUATION =
     res_bind H2_split_headers (\<lambda>split_headers.
     let split_at = length split_headers div 2 in
     res_cat [H2_PREFACE, h2_frame 0x01 0x01 1 (take split_at split_headers),
       h2_frame 0x09 0x04 1 (drop split_at split_headers)])"

definition H2_LIFECYCLE_FRAMES :: "bytes res" where
  "H2_LIFECYCLE_FRAMES =
     res_cat [H2_PREFACE, h2_frame 0x02 0 3 (map mk_byte [0, 0, 0, 0, 0x10]),
       h2_request_headers ''GET'' ''/'' False [] 1,
       h2_frame 0x03 0 1 (map mk_byte [0, 0, 0, 8]),
       h2_frame 0x07 0 0 (map mk_byte [0, 0, 0, 1, 0, 0, 0, 0])]"

definition H2_MULTI_STREAM :: "bytes res" where
  "H2_MULTI_STREAM =
     res_cat [H2_PREFACE, h2_request_headers ''GET'' ''/files/index.txt'' True [] 1,
       h2_request_headers ''GET'' ''/server-status?auto'' True [] 3,
       h2_request_headers ''HEAD'' ''/listing/'' True [] 5]"

definition H2_EXPECT_HEADERS :: "bytes res" where
  "H2_EXPECT_HEADERS =
     res_cat [H2_PREFACE, h2_request_headers ''POST'' ''/cgi/echo.cgi?normal'' False
       [(''content-length'', ''4''), (''expect'', ''100-continue'')] 1]"

definition H2_EXPECT_DATA :: "bytes res" where
  "H2_EXPECT_DATA = h2_frame 0x00 0x01 1 ''seed''"

definition H2_EXPECT_CONTINUE :: "bytes res" where
  "H2_EXPECT_CONTINUE = res_cat [H2_EXPECT_HEADERS, H2_EXPECT_DATA]"

definition H2_REQUEST_TRAILERS :: "bytes res" where
  "H2_REQUEST_TRAILERS =
     res_bind (hpack_literal_name ''test-trailer'' ''finished'') (\<lambda>trailer.
     res_cat [H2_PREFACE, h2_request_headers ''POST'' ''/cgi/echo.cgi?stream'' False
         [(''te'', ''trailers'')] 1,
       h2_frame 0x00 0 1 ''seed'', h2_frame 0x01 0x05 1 trailer])"

definition H2_PADDED_DATA :: "bytes res" where
  "H2_PADDED_DATA =
     res_cat [H2_PREFACE, h2_request_headers ''POST'' ''/cgi/echo.cgi?normal'' False
         [(''content-length'', ''4'')] 1,
       h2_frame 0x00 0x09 1 ([mk_byte 2] @ ''seed'' @ map mk_byte [0, 0])]"

definition H2_WSTUNNEL_HEADERS :: "bytes res" where
  "H2_WSTUNNEL_HEADERS = res_cat [H2_PREFACE, h2_extended_connect_headers ''/h2-ws/'' 1]"

definition H2_WSTUNNEL_DATA :: "bytes res" where
  "H2_WSTUNNEL_DATA = res_bind WSTUNNEL_BACKEND_FRAME (h2_frame 0x00 0 1)"

definition H2_WSTUNNEL_REQUEST :: "bytes res" where
  "H2_WSTUNNEL_REQUEST = res_cat [H2_WSTUNNEL_HEADERS, H2_WSTUNNEL_DATA]"

definition H2_AUTH_WEBDAV_PUT :: "bytes res" where
  "H2_AUTH_WEBDAV_PUT =
     res_cat [H2_PREFACE, h2_request_headers ''PUT'' ''/dav/h2-auth.txt'' False
         [(''authorization'', ''Basic ZnV6ejpmdXp6''), (''content-length'', ''4'')] 1,
       h2_frame 0x00 0x01 1 ''seed'']"

definition H2_STATIC_CACHE_REQUESTS :: "bytes list res" where
  "H2_STATIC_CACHE_REQUESTS =
     res_map (\<lambda>r. res_cat [H2_PREFACE, r])
       [h2_request_headers ''GET'' ''/files/large.txt'' True
          [(''range'', ''bytes=0-31''), (''accept-encoding'', ''gzip'')] 1,
        h2_request_headers ''GET'' ''/files/large.txt'' True [(''if-none-match'', ''*'')] 1,
        h2_get ''/listing/?json'']"

section \<open>seed_inputs\<close>

text \<open>
  \<open>b"\x00" + request\<close>: a control byte before the request. The first list is the literal
  one of the source, in its order.
\<close>

definition plain :: "nat \<Rightarrow> bytes res \<Rightarrow> bytes res" where
  "plain flags r = res_bind r (\<lambda>request. Inr (mk_byte flags # request))"

definition base_seeds :: "bytes res list" where
  "base_seeds =
       [plain 0 (Inr GET_ROOT), plain 1 (Inr GET_ROOT), plain 0 (Inr GET_FILE),
        plain 0 (Inr OPTIONS), plain 0 (Inr HEAD_ROOT), plain 0 (Inr RANGE_REQUEST),
        plain 0 (Inr FORWARDED_REQUEST), plain 0 (Inr PRIVATE_REQUEST),
        plain 0 (Inr PRIVATE_AUTH_REQUEST), plain 0 (Inr STATUS_REQUEST),
        plain 0 (Inr ALIAS_REQUEST), plain 0 (Inr REDIRECT_REQUEST),
        plain 0 (Inr REWRITE_REQUEST), plain 0 (Inr WEBDAV_PUT),
        plain 1 (Inr WEBDAV_CHUNKED_PUT), plain 0 H2_PREFACE, plain 0 (Inr H2C_UPGRADE),
        plain 0 (Inr HTTP10_RANGE), plain 0 (Inr MULTI_RANGE),
        plain 0 (Inr UNSATISFIABLE_RANGE), plain 0 (Inr IF_RANGE),
        plain 0 (Inr CONDITIONAL_GET), plain 0 (Inr ABSOLUTE_URI), plain 0 (Inr DIRLIST_HTML),
        plain 0 (Inr DIRLIST_JSON), plain 0 (Inr CONDITIONS_REQUEST),
        plain 0 (Inr VHOST_REQUEST), plain 0 (Inr VHOST_FALLBACK_REQUEST),
        plain 0 (Inr EVHOST_REQUEST), plain 0 (Inr USERDIR_REQUEST), plain 0 (Inr SSI_REQUEST),
        plain 0 (Inr CGI_GET), plain 0 (Inr CGI_STATUS), plain 0 (Inr CGI_REDIRECT),
        plain 0 (Inr CGI_XSENDFILE), plain 0 (Inr CGI_STREAM), plain 0 (Inr CGI_POST),
        plain 0 (Inr CGI_CHUNKED_TRAILER), plain 0 (Inr INVALID_TRANSFER_LENGTH),
        plain 0 (Inr DIGEST_CHALLENGE_REQUEST), plain 0 (Inr DIGEST_AUTH_REQUEST),
        plain 0 (Inr BASIC_USER_AUTH_REQUEST), plain 0 (Inr INVALID_BASIC_AUTH_REQUEST),
        plain 0 (Inr WEBDAV_OPTIONS), plain 0 (Inr WEBDAV_PROPFIND),
        plain 0 (Inr WEBDAV_PROPFIND_INFINITY), plain 0 (Inr WEBDAV_MKCOL),
        plain 0 (Inr WEBDAV_COPY), plain 0 (Inr WEBDAV_MOVE), plain 0 (Inr WEBDAV_DELETE),
        plain 0 (Inr WEBDAV_PARTIAL_PUT), plain 0 (Inr MISSING_REQUEST),
        plain 0 (Inr MALFORMED_HOST_REQUEST), plain 0 (Inr MISSING_HOST_REQUEST),
        plain 0 (Inr OVERSIZED_REQUEST_FIELD), plain 0 (Inr GET_WITH_BODY),
        plain 0 (Inr STATUS_STATISTICS_REQUEST), plain 0 (Inr WEBSOCKET_UPGRADE),
        plain 0 (Inr WSTUNNEL_UPGRADE), plain 0 (Inr CONNECT_REQUEST),
        plain 0 (Inr HAPROXY_V1_GET), plain 0 (Inr HAPROXY_V1_UNKNOWN),
        plain 0 (Inr HAPROXY_V2_GET), plain 0 HAPROXY_V2_TLV_GET,
        plain 0 (Inr HAPROXY_V1_TCP6_FORWARDED), plain 0 H2_GET_ROOT, plain 0 H2_GET_STATUS,
        plain 0 H2_CONTROL_FRAMES, plain 0 H2_PUT, plain 0 H2_GET_CGI, plain 0 H2_GET_PROXY,
        plain 0 H2_GET_NORMALIZED, plain 0 H2_CONTINUATION, plain 0 H2_LIFECYCLE_FRAMES,
        plain 0 H2_MULTI_STREAM, plain 0 H2_EXPECT_CONTINUE, plain 0 H2_REQUEST_TRAILERS,
        plain 0 H2_PADDED_DATA, plain 0 H2_WSTUNNEL_REQUEST, plain 0 H2_AUTH_WEBDAV_PUT,
        plain 0 (Inr CHUNKED_EXTENSION_REQUEST), plain 0 (Inr FORWARDED_IPV6_REQUEST),
        plain 0 CGI_DENSE_HEADERS, plain 0 (Inr ACCESSLOG_FIELDS_REQUEST),
        plain 0 (Inr SSI_EXEC_REQUEST)]"

text \<open>The generator expressions of the \<open>extend\<close> calls.\<close>

definition plain_all :: "bytes list res \<Rightarrow> bytes list res" where
  "plain_all g = res_bind g (\<lambda>requests. Inr (map (\<lambda>request. mk_byte 0 # request) requests))"

definition framed :: "nat list \<Rightarrow> bytes list res \<Rightarrow> bytes list res" where
  "framed flag_values g =
     res_bind g (\<lambda>packets. res_map (\<lambda>flags. multipacket flags packets) flag_values)"

definition packet_list :: "bytes res list \<Rightarrow> bytes list res" where
  "packet_list rs = res_map (\<lambda>r. r) rs"

definition plain_groups :: "bytes list res list" where
  "plain_groups =
     [Inr CONDITION_ROUTING_REQUESTS, Inr URL_NORMALIZATION_REQUESTS, Inr STATIC_PROFILE_REQUESTS,
      Inr USERDIR_EDGE_REQUESTS, Inr DEFLATE_REQUESTS, Inr PROXY_REQUESTS,
      Inr BACKEND_PROXY_REQUESTS, Inr BACKEND_GATEWAY_REQUESTS, Inr LEGACY_PROXY_REQUESTS,
      Inr BACKEND_FASTCGI_REQUESTS, Inr BACKEND_SCGI_REQUESTS, H2_BACKEND_PROXY_REQUESTS,
      H2_BACKEND_FASTCGI_REQUESTS, H2_BACKEND_SCGI_REQUESTS, Inr FORWARDED_CHAIN_REQUESTS,
      Inr ADMIN_REQUESTS, Inr STATUS_VARIANT_REQUESTS, Inr STACK_REQUESTS, Inr SSI_EDGE_REQUESTS,
      Inr ROUTING_INTERACTION_REQUESTS, H2_STATIC_CACHE_REQUESTS]"

definition framed_groups :: "(nat list \<times> bytes list res) list" where
  "framed_groups =
     [([2, 3, 6, 7], Inr [GET_KEEPALIVE, GET_FILE]),
      ([2, 3, 6, 7], Inr [CGI_EXPECT_HEADERS, ''seed'']),
      ([2, 3, 6, 7], packet_list [H2_PREFACE, h2_get ''/'']),
      ([2, 6, 7], Inr WEBDAV_LIFECYCLE_REQUESTS),
      ([6, 7], Inr WEBDAV_TREE_REQUESTS),
      ([6, 7], Inr WEBDAV_PARTIAL_PUT_REQUESTS),
      ([2, 3], Inr CHUNKED_FRAGMENT_PACKETS),
      ([6, 7], Inr CONNECT_TUNNEL_REQUESTS),
      ([6, 7], Inr BACKEND_CONNECT_TUNNEL_REQUESTS),
      ([6, 7], Inr [BACKEND_UPGRADE_REQUEST, ''proxy-upgrade-echo'']),
      ([6, 7], Inr [BACKEND_GATEWAY_UPGRADE_REQUEST, ''gateway-upgrade-echo'']),
      ([6, 7], packet_list [Inr WSTUNNEL_UPGRADE, WSTUNNEL_BACKEND_FRAME]),
      ([6, 7], packet_list [H2_WSTUNNEL_HEADERS, H2_WSTUNNEL_DATA]),
      ([2, 3], Inr [BACKEND_FASTCGI_POST_HEADERS, ''seed'']),
      ([2, 3], Inr [BACKEND_SCGI_POST_HEADERS, ''seed'']),
      ([2, 3], Inr [crlf_lines [''PROXY TCP6 2001:db8::10 2001:db8::20 12345 80''],
                    FORWARDED_IPV6_REQUEST]),
      ([6], Inr LISTING_CACHE_REQUESTS),
      ([6], Inr DEFLATE_CACHE_REQUESTS),
      ([6, 7], packet_list [Inr H2C_UPGRADE, res_cat [Inr H2_CONNECTION_PREFACE, H2_SETTINGS],
                 h2_request_headers ''GET'' ''/files/index.txt'' True [] 3]),
      ([6, 7], packet_list [H2_EXPECT_HEADERS, H2_EXPECT_DATA])]"

definition seed_inputs :: "bytes list res" where
  "seed_inputs =
     res_bind (packet_list base_seeds) (\<lambda>b.
     res_bind (res_map plain_all plain_groups) (\<lambda>p.
     res_bind (res_map (\<lambda>(flag_values, g). framed flag_values g) framed_groups) (\<lambda>f.
     Inr (b @ concat p @ concat f))))"

section \<open>Nothing raises and nothing is empty\<close>

text \<open>
  Every request and packet of the seeds is computed without an exception and has between 1 and
  8000 bytes; the largest, \<open>CGI_DENSE_HEADERS\<close>, has 7417.
\<close>

definition sized :: "bytes res \<Rightarrow> bool" where
  "sized r \<longleftrightarrow> (case r of Inl _ \<Rightarrow> False | Inr d \<Rightarrow> d \<noteq> [] \<and> length d \<le> 8000)"

named_theorems encoders
named_theorems sized_seeds

lemmas [encoders] =
  hpack_raw_string_short hpack_literal_short hpack_literal_name_short h2_frame_eq
  h2_request_headers_def h2_request_block_def h2_extended_connect_headers_def
  res_cat_def sized_def crlf_lines_def crlf_def encoded_request_def

lemma sized_requests_1 [sized_seeds]:
  "sized (Inr GET_ROOT)"
  "sized (Inr GET_KEEPALIVE)"
  "sized (Inr GET_FILE)"
  "sized (Inr OPTIONS)"
  "sized (Inr HEAD_ROOT)"
  "sized (Inr RANGE_REQUEST)"
  "sized (Inr FORWARDED_REQUEST)"
  "sized (Inr PRIVATE_REQUEST)"
  "sized (Inr PRIVATE_AUTH_REQUEST)"
  "sized (Inr STATUS_REQUEST)"
  "sized (Inr ALIAS_REQUEST)"
  "sized (Inr REDIRECT_REQUEST)"
  by (simp_all add: encoders GET_ROOT_def GET_KEEPALIVE_def GET_FILE_def OPTIONS_def
      HEAD_ROOT_def RANGE_REQUEST_def FORWARDED_REQUEST_def PRIVATE_REQUEST_def
      PRIVATE_AUTH_REQUEST_def STATUS_REQUEST_def ALIAS_REQUEST_def REDIRECT_REQUEST_def)

lemma sized_requests_2 [sized_seeds]:
  "sized (Inr REWRITE_REQUEST)"
  "sized (Inr WEBDAV_PUT)"
  "sized (Inr WEBDAV_CHUNKED_PUT)"
  "sized (Inr H2C_UPGRADE)"
  "sized (Inr HTTP10_RANGE)"
  "sized (Inr MULTI_RANGE)"
  "sized (Inr UNSATISFIABLE_RANGE)"
  "sized (Inr IF_RANGE)"
  "sized (Inr CONDITIONAL_GET)"
  "sized (Inr ABSOLUTE_URI)"
  "sized (Inr DIRLIST_HTML)"
  "sized (Inr DIRLIST_JSON)"
  by (simp_all add: encoders REWRITE_REQUEST_def WEBDAV_PUT_def WEBDAV_CHUNKED_PUT_def
      H2C_UPGRADE_def HTTP10_RANGE_def MULTI_RANGE_def UNSATISFIABLE_RANGE_def IF_RANGE_def
      CONDITIONAL_GET_def ABSOLUTE_URI_def DIRLIST_HTML_def DIRLIST_JSON_def)

lemma sized_requests_3 [sized_seeds]:
  "sized (Inr CONDITIONS_REQUEST)"
  "sized (Inr VHOST_REQUEST)"
  "sized (Inr VHOST_FALLBACK_REQUEST)"
  "sized (Inr EVHOST_REQUEST)"
  "sized (Inr USERDIR_REQUEST)"
  "sized (Inr SSI_REQUEST)"
  "sized (Inr CGI_GET)"
  "sized (Inr CGI_STATUS)"
  "sized (Inr CGI_REDIRECT)"
  "sized (Inr CGI_XSENDFILE)"
  "sized (Inr CGI_STREAM)"
  "sized (Inr CGI_POST)"
  by (simp_all add: encoders CONDITIONS_REQUEST_def VHOST_REQUEST_def
      VHOST_FALLBACK_REQUEST_def EVHOST_REQUEST_def USERDIR_REQUEST_def SSI_REQUEST_def
      CGI_GET_def CGI_STATUS_def CGI_REDIRECT_def CGI_XSENDFILE_def CGI_STREAM_def CGI_POST_def)

lemma sized_requests_4 [sized_seeds]:
  "sized (Inr CGI_EXPECT_HEADERS)"
  "sized (Inr CGI_CHUNKED_TRAILER)"
  "sized (Inr INVALID_TRANSFER_LENGTH)"
  "sized (Inr DIGEST_CHALLENGE_REQUEST)"
  "sized (Inr DIGEST_AUTH_REQUEST)"
  "sized (Inr BASIC_USER_AUTH_REQUEST)"
  "sized (Inr INVALID_BASIC_AUTH_REQUEST)"
  "sized (Inr WEBDAV_OPTIONS)"
  "sized (Inr WEBDAV_PROPFIND)"
  "sized (Inr WEBDAV_PROPFIND_INFINITY)"
  "sized (Inr WEBDAV_MKCOL)"
  "sized (Inr WEBDAV_COPY)"
  by (simp_all add: encoders CGI_EXPECT_HEADERS_def CGI_CHUNKED_TRAILER_def
      INVALID_TRANSFER_LENGTH_def DIGEST_CHALLENGE_REQUEST_def DIGEST_AUTH_REQUEST_def
      BASIC_USER_AUTH_REQUEST_def INVALID_BASIC_AUTH_REQUEST_def WEBDAV_OPTIONS_def
      WEBDAV_PROPFIND_def WEBDAV_PROPFIND_INFINITY_def WEBDAV_MKCOL_def WEBDAV_COPY_def)

lemma sized_requests_5 [sized_seeds]:
  "sized (Inr WEBDAV_MOVE)"
  "sized (Inr WEBDAV_DELETE)"
  "sized (Inr WEBDAV_PARTIAL_PUT)"
  "sized (Inr MISSING_REQUEST)"
  "sized (Inr MALFORMED_HOST_REQUEST)"
  "sized (Inr MISSING_HOST_REQUEST)"
  "sized (Inr OVERSIZED_REQUEST_FIELD)"
  "sized (Inr GET_WITH_BODY)"
  "sized (Inr STATUS_STATISTICS_REQUEST)"
  "sized (Inr WEBSOCKET_UPGRADE)"
  "sized (Inr WSTUNNEL_UPGRADE)"
  "sized (Inr CONNECT_REQUEST)"
  by (simp_all add: encoders WEBDAV_MOVE_def WEBDAV_DELETE_def WEBDAV_PARTIAL_PUT_def
      MISSING_REQUEST_def MALFORMED_HOST_REQUEST_def MISSING_HOST_REQUEST_def
      OVERSIZED_REQUEST_FIELD_def GET_WITH_BODY_def STATUS_STATISTICS_REQUEST_def
      WEBSOCKET_UPGRADE_def WSTUNNEL_UPGRADE_def CONNECT_REQUEST_def)

lemma sized_requests_6 [sized_seeds]:
  "sized (Inr HAPROXY_V1_GET)"
  "sized (Inr HAPROXY_V1_UNKNOWN)"
  "sized (Inr BACKEND_FASTCGI_POST_HEADERS)"
  "sized (Inr BACKEND_SCGI_POST_HEADERS)"
  "sized (Inr BACKEND_UPGRADE_REQUEST)"
  "sized (Inr BACKEND_GATEWAY_UPGRADE_REQUEST)"
  "sized (Inr WSTUNNEL_BACKEND_REQUEST)"
  "sized (Inr FORWARDED_IPV6_REQUEST)"
  "sized (Inr HAPROXY_V1_TCP6_FORWARDED)"
  "sized (Inr ACCESSLOG_FIELDS_REQUEST)"
  "sized (Inr SSI_EXEC_REQUEST)"
  "sized (Inr CHUNKED_EXTENSION_REQUEST)"
  by (simp_all add: encoders HAPROXY_V1_GET_def HAPROXY_V1_UNKNOWN_def
      BACKEND_FASTCGI_POST_HEADERS_def BACKEND_SCGI_POST_HEADERS_def
      BACKEND_UPGRADE_REQUEST_def BACKEND_GATEWAY_UPGRADE_REQUEST_def
      WSTUNNEL_BACKEND_REQUEST_def FORWARDED_IPV6_REQUEST_def HAPROXY_V1_TCP6_FORWARDED_def
      ACCESSLOG_FIELDS_REQUEST_def SSI_EXEC_REQUEST_def CHUNKED_EXTENSION_REQUEST_def
      GET_ROOT_def)

lemma sized_haproxy_v2 [sized_seeds]:
  "sized (Inr HAPROXY_V2_GET)"
  "sized HAPROXY_V2_TLV_GET"
  by (simp_all add: encoders HAPROXY_V2_GET_def HAPROXY_V2_TLV_GET_def HAPROXY_V2_ADDRESS_def
      HAPROXY_V2_TLVS_def HAPROXY_V2_SSL_def GET_ROOT_def)

lemmas [encoders] =
  H2_SETTINGS_def H2_PREFACE_def H2_CONNECTION_PREFACE_def h2_get_def H2_PUT_HEADERS_def
  H2_EXPECT_HEADERS_def H2_EXPECT_DATA_def H2_WSTUNNEL_HEADERS_def H2_WSTUNNEL_DATA_def
  WSTUNNEL_BACKEND_FRAME_def WSTUNNEL_BACKEND_REQUEST_def websocket_client_frame_eq
  ws_mask_def

lemma sized_tunnel [sized_seeds]:
  "sized WSTUNNEL_BACKEND_FRAME"
  "sized H2_WSTUNNEL_DATA"
  "sized H2_WSTUNNEL_HEADERS"
  by (simp_all add: encoders)

lemma sized_h2_1 [sized_seeds]:
  "sized H2_SETTINGS"
  "sized H2_PREFACE"
  "sized H2_GET_ROOT"
  "sized H2_GET_STATUS"
  "sized H2_CONTROL_FRAMES"
  "sized H2_PUT_HEADERS"
  "sized H2_PUT"
  "sized H2_GET_CGI"
  "sized (h2_get ''/'')"
  "sized (res_cat [Inr H2_CONNECTION_PREFACE, H2_SETTINGS])"
  "sized (h2_request_headers ''GET'' ''/files/index.txt'' True [] 3)"
  by (simp_all add: encoders H2_GET_ROOT_def H2_GET_STATUS_def H2_CONTROL_FRAMES_def H2_PUT_def
      H2_GET_CGI_def)

lemma sized_h2_2 [sized_seeds]:
  "sized H2_GET_PROXY"
  "sized H2_GET_NORMALIZED"
  "sized H2_LIFECYCLE_FRAMES"
  "sized H2_MULTI_STREAM"
  "sized H2_EXPECT_HEADERS"
  "sized H2_EXPECT_DATA"
  "sized H2_EXPECT_CONTINUE"
  "sized H2_REQUEST_TRAILERS"
  by (simp_all add: encoders H2_GET_PROXY_def H2_GET_NORMALIZED_def H2_LIFECYCLE_FRAMES_def
      H2_MULTI_STREAM_def H2_EXPECT_CONTINUE_def H2_REQUEST_TRAILERS_def)

lemma sized_h2_3 [sized_seeds]:
  "sized H2_PADDED_DATA"
  "sized H2_WSTUNNEL_REQUEST"
  "sized H2_AUTH_WEBDAV_PUT"
  by (simp_all add: encoders H2_PADDED_DATA_def H2_WSTUNNEL_REQUEST_def H2_AUTH_WEBDAV_PUT_def)

lemma sized_continuation [sized_seeds]: "sized H2_CONTINUATION"
  by (simp add: encoders H2_CONTINUATION_def H2_split_headers_def Let_def)

lemma res_map_total: "(\<And>x. x \<in> set xs \<Longrightarrow> f x = Inr (g x)) \<Longrightarrow> res_map f xs = Inr (map g xs)"
  by (induction xs) auto

lemma sized_dense [sized_seeds]: "sized CGI_DENSE_HEADERS"
proof -
  define a where "a = ''0123456789abcdefghijklmnopqrstuvwxyz''"
  define h where "h = (\<lambda>i. ''X'' @ [a ! (i div 36), a ! (i mod 36)] @ '':a'' @ crlf)"
  have "length a = 36" by (simp add: a_def)
  then have "res_map (\<lambda>i. res_bind (base36_pair i) (\<lambda>p. Inr (''X'' @ p @ '':a'' @ crlf)))
      [0..<1050] = Inr (map h [0..<1050])"
    by (intro res_map_total) (simp add: base36_pair_def a_def [symmetric] h_def less_mult_imp_div_less)
  moreover have "length (concat (map h [0..<1050])) = 1050 * 7"
    by (simp add: length_concat o_def h_def crlf_def sum_list_triv)
  ultimately show ?thesis
    by (simp add: CGI_DENSE_HEADERS_def sized_def crlf_lines_def crlf_def)
qed

section \<open>The seed list\<close>

text \<open>What a group of plain seeds and a group of packets have to satisfy.\<close>

definition group_ok :: "nat \<Rightarrow> bytes list res \<Rightarrow> bool" where
  "group_ok n g \<longleftrightarrow> (\<exists>ds. g = Inr ds \<and> length ds = n \<and> list_all (\<lambda>d. sized (Inr d)) ds)"

definition framed_ok :: "nat \<Rightarrow> nat list \<times> bytes list res \<Rightarrow> bool" where
  "framed_ok n = (\<lambda>(flag_values, g).
     length flag_values = n \<and> list_all (\<lambda>f. f \<le> 7) flag_values
     \<and> (\<exists>m. 0 < m \<and> m \<le> 8 \<and> group_ok m g))"

definition seed_ok :: "bytes \<Rightarrow> bool" where
  "seed_ok s \<longleftrightarrow> harness_ok s \<and> length s \<le> 65000"

lemma group_ok_Inr [simp]:
  "group_ok n (Inr ds) \<longleftrightarrow> length ds = n \<and> list_all (\<lambda>d. sized (Inr d)) ds"
  by (auto simp: group_ok_def)

lemma sized_obtain:
  assumes "sized r"
  obtains d where "r = Inr d" "d \<noteq> []" "length d \<le> 8000"
  using assms by (auto simp: sized_def split: sum.splits)

lemma group_ok_res_map:
  "list_all (\<lambda>x. sized (f x)) xs \<Longrightarrow> group_ok (length xs) (res_map f xs)"
  by (induction xs) (auto simp: sized_def group_ok_def split: sum.splits)

lemma plain_sized: "n \<le> 1 \<Longrightarrow> sized r \<Longrightarrow> \<exists>s. plain n r = Inr s \<and> seed_ok s"
proof -
  assume n: "n \<le> 1" and r: "sized r"
  then obtain d where "r = Inr d" "length d \<le> 8000" by (auto elim: sized_obtain)
  moreover from n have "n = 0 \<or> n = 1" by auto
  ultimately show ?thesis by (auto simp: plain_def seed_ok_def harness_ok_def)
qed

lemma plain_all_group:
  "group_ok n g \<Longrightarrow> \<exists>ss. plain_all g = Inr ss \<and> length ss = n \<and> list_all seed_ok ss"
  by (fastforce simp: group_ok_def plain_all_def seed_ok_def list_all_iff sized_def)

lemma frames_length: "list_all (\<lambda>p. length p \<le> k) ps \<Longrightarrow> length (frames ps) \<le> length ps * (k + 2)"
  by (induction ps) (auto simp: frames_def frame_head)

lemma framed_group:
  assumes "framed_ok n x"
  shows "\<exists>ss. framed (fst x) (snd x) = Inr ss \<and> length ss = n \<and> list_all seed_ok ss"
proof -
  obtain fs g where x: "x = (fs, g)" by (cases x)
  from assms x obtain ps where fs: "length fs = n" "list_all (\<lambda>f. f \<le> 7) fs" and g: "g = Inr ps"
    and ps: "0 < length ps" "length ps \<le> 8" "list_all (\<lambda>d. sized (Inr d)) ps"
    by (auto simp: framed_ok_def group_ok_def)
  have ok: "packets_ok ps" "list_all (\<lambda>p. length p \<le> 8000) ps"
    using ps by (auto simp: packets_ok_def packet_ok_def sized_def list_all_iff)
  have mp: "multipacket f ps = Inr (mk_byte f # frames ps)" if "f \<in> set fs" for f
    using that fs(2) packets_ok_lengths [OF ok(1)] by (auto simp: multipacket_Inr_iff list_all_iff)
  have "length (frames ps) \<le> 64999"
    using frames_length [OF ok(2)] ps(2) by simp
  then have "seed_ok (mk_byte f # frames ps)" if "f \<in> set fs" for f
    using harness_ok_multipacket [OF ok(1) _ mp] that fs(2) by (auto simp: seed_ok_def list_all_iff)
  then show ?thesis
    using res_map_total [of fs "\<lambda>f. multipacket f ps", OF mp] fs(1)
    by (simp add: x g framed_def list_all_iff)
qed

text \<open>Groups of known sizes, one after the other.\<close>

lemma groups_seeds:
  assumes "\<And>n x. P n x \<Longrightarrow> \<exists>ss. f x = Inr ss \<and> length ss = n \<and> list_all seed_ok ss"
    and "list_all2 P ns xs"
  shows "\<exists>gs. res_map f xs = Inr gs \<and> length (concat gs) = sum_list ns
    \<and> list_all seed_ok (concat gs)"
  using assms(2)
proof (induction ns xs rule: list_all2_induct)
  case (Cons n ns x xs)
  with assms(1) [OF Cons.hyps(1)] show ?case by fastforce
qed simp

lemma http_groups_sized:
  "list_all (\<lambda>d. sized (Inr d)) CONDITION_ROUTING_REQUESTS"
  "list_all (\<lambda>d. sized (Inr d)) URL_NORMALIZATION_REQUESTS"
  "list_all (\<lambda>d. sized (Inr d)) STATIC_PROFILE_REQUESTS"
  "list_all (\<lambda>d. sized (Inr d)) USERDIR_EDGE_REQUESTS"
  "list_all (\<lambda>d. sized (Inr d)) DEFLATE_REQUESTS"
  "list_all (\<lambda>d. sized (Inr d)) PROXY_REQUESTS"
  "list_all (\<lambda>d. sized (Inr d)) FORWARDED_CHAIN_REQUESTS"
  "list_all (\<lambda>d. sized (Inr d)) ADMIN_REQUESTS"
  "list_all (\<lambda>d. sized (Inr d)) STATUS_VARIANT_REQUESTS"
  "list_all (\<lambda>d. sized (Inr d)) STACK_REQUESTS"
  "list_all (\<lambda>d. sized (Inr d)) SSI_EDGE_REQUESTS"
  "list_all (\<lambda>d. sized (Inr d)) ROUTING_INTERACTION_REQUESTS"
  by (simp_all add: encoders CONDITION_ROUTING_REQUESTS_def URL_NORMALIZATION_REQUESTS_def
      STATIC_PROFILE_REQUESTS_def USERDIR_EDGE_REQUESTS_def DEFLATE_REQUESTS_def
      PROXY_REQUESTS_def FORWARDED_CHAIN_REQUESTS_def ADMIN_REQUESTS_def
      STATUS_VARIANT_REQUESTS_def STACK_REQUESTS_def SSI_EDGE_REQUESTS_def
      ROUTING_INTERACTION_REQUESTS_def)

lemma http_groups_length:
  "length CONDITION_ROUTING_REQUESTS = 5"
  "length URL_NORMALIZATION_REQUESTS = 5"
  "length STATIC_PROFILE_REQUESTS = 7"
  "length USERDIR_EDGE_REQUESTS = 5"
  "length DEFLATE_REQUESTS = 6"
  "length PROXY_REQUESTS = 4"
  "length FORWARDED_CHAIN_REQUESTS = 2"
  "length ADMIN_REQUESTS = 3"
  "length STATUS_VARIANT_REQUESTS = 5"
  "length STACK_REQUESTS = 4"
  "length SSI_EDGE_REQUESTS = 4"
  "length ROUTING_INTERACTION_REQUESTS = 4"
  by (simp_all add: CONDITION_ROUTING_REQUESTS_def URL_NORMALIZATION_REQUESTS_def
      STATIC_PROFILE_REQUESTS_def USERDIR_EDGE_REQUESTS_def DEFLATE_REQUESTS_def
      PROXY_REQUESTS_def FORWARDED_CHAIN_REQUESTS_def ADMIN_REQUESTS_def
      STATUS_VARIANT_REQUESTS_def STACK_REQUESTS_def SSI_EDGE_REQUESTS_def
      ROUTING_INTERACTION_REQUESTS_def)

lemma backend_groups_sized:
  "group_ok 13 (Inr BACKEND_PROXY_REQUESTS)"
  "group_ok 13 (Inr BACKEND_GATEWAY_REQUESTS)"
  "group_ok 13 (Inr LEGACY_PROXY_REQUESTS)"
  "group_ok 13 (Inr BACKEND_FASTCGI_REQUESTS)"
  "group_ok 13 (Inr BACKEND_SCGI_REQUESTS)"
  by (simp_all add: encoders BACKEND_RESPONSE_MODES_def BACKEND_PROXY_REQUESTS_def
      BACKEND_GATEWAY_REQUESTS_def LEGACY_PROXY_REQUESTS_def BACKEND_FASTCGI_REQUESTS_def
      BACKEND_SCGI_REQUESTS_def)

lemma h2_get_mode_sized:
  "length p \<le> 20 \<Longrightarrow> list_all (\<lambda>m. sized (res_cat [H2_PREFACE, h2_get (p @ m)])) BACKEND_RESPONSE_MODES"
  by (simp add: encoders BACKEND_RESPONSE_MODES_def)

lemma h2_groups_sized:
  "group_ok 13 H2_BACKEND_PROXY_REQUESTS" "group_ok 13 H2_BACKEND_FASTCGI_REQUESTS"
  "group_ok 13 H2_BACKEND_SCGI_REQUESTS" "group_ok 3 H2_STATIC_CACHE_REQUESTS"
proof -
  have "length BACKEND_RESPONSE_MODES = 13" by (simp add: BACKEND_RESPONSE_MODES_def)
  then have mode: "group_ok 13 (res_map (\<lambda>m. res_cat [H2_PREFACE, h2_get (p @ m)]) BACKEND_RESPONSE_MODES)"
    if "length p \<le> 20" for p
    using group_ok_res_map [OF h2_get_mode_sized [OF that]] by simp
  show "group_ok 13 H2_BACKEND_PROXY_REQUESTS"
    unfolding H2_BACKEND_PROXY_REQUESTS_def by (rule mode) simp
  show "group_ok 13 H2_BACKEND_FASTCGI_REQUESTS"
    unfolding H2_BACKEND_FASTCGI_REQUESTS_def by (rule mode) simp
  show "group_ok 13 H2_BACKEND_SCGI_REQUESTS"
    unfolding H2_BACKEND_SCGI_REQUESTS_def by (rule mode) simp
  show "group_ok 3 H2_STATIC_CACHE_REQUESTS"
    by (simp add: H2_STATIC_CACHE_REQUESTS_def encoders)
qed

lemma plain_groups_sized:
  "list_all2 group_ok [5, 5, 7, 5, 6, 4, 13, 13, 13, 13, 13, 13, 13, 13, 2, 3, 5, 4, 4, 4, 3]
     plain_groups"
  unfolding plain_groups_def
  by (simp only: list_all2_Cons list_all2_Nil group_ok_Inr
      backend_groups_sized [unfolded group_ok_Inr]
      h2_groups_sized http_groups_sized http_groups_length simp_thms)

lemma packet_groups_sized:
  "list_all (\<lambda>d. sized (Inr d)) BACKEND_CONNECT_TUNNEL_REQUESTS \<and> 0 < length BACKEND_CONNECT_TUNNEL_REQUESTS \<and> length BACKEND_CONNECT_TUNNEL_REQUESTS \<le> 8"
  "list_all (\<lambda>d. sized (Inr d)) CHUNKED_FRAGMENT_PACKETS \<and> 0 < length CHUNKED_FRAGMENT_PACKETS \<and> length CHUNKED_FRAGMENT_PACKETS \<le> 8"
  "list_all (\<lambda>d. sized (Inr d)) WEBDAV_LIFECYCLE_REQUESTS \<and> 0 < length WEBDAV_LIFECYCLE_REQUESTS \<and> length WEBDAV_LIFECYCLE_REQUESTS \<le> 8"
  "list_all (\<lambda>d. sized (Inr d)) WEBDAV_TREE_REQUESTS \<and> 0 < length WEBDAV_TREE_REQUESTS \<and> length WEBDAV_TREE_REQUESTS \<le> 8"
  "list_all (\<lambda>d. sized (Inr d)) WEBDAV_PARTIAL_PUT_REQUESTS \<and> 0 < length WEBDAV_PARTIAL_PUT_REQUESTS \<and> length WEBDAV_PARTIAL_PUT_REQUESTS \<le> 8"
  "list_all (\<lambda>d. sized (Inr d)) CONNECT_TUNNEL_REQUESTS \<and> 0 < length CONNECT_TUNNEL_REQUESTS \<and> length CONNECT_TUNNEL_REQUESTS \<le> 8"
  "list_all (\<lambda>d. sized (Inr d)) LISTING_CACHE_REQUESTS \<and> 0 < length LISTING_CACHE_REQUESTS \<and> length LISTING_CACHE_REQUESTS \<le> 8"
  "list_all (\<lambda>d. sized (Inr d)) DEFLATE_CACHE_REQUESTS \<and> 0 < length DEFLATE_CACHE_REQUESTS \<and> length DEFLATE_CACHE_REQUESTS \<le> 8"
  by (simp_all add: encoders BACKEND_CONNECT_TUNNEL_REQUESTS_def CHUNKED_FRAGMENT_PACKETS_def
      WEBDAV_LIFECYCLE_REQUESTS_def WEBDAV_TREE_REQUESTS_def WEBDAV_PARTIAL_PUT_REQUESTS_def
      CONNECT_TUNNEL_REQUESTS_def LISTING_CACHE_REQUESTS_def DEFLATE_CACHE_REQUESTS_def)

lemma packet_list_group:
  "list_all sized rs \<Longrightarrow> group_ok (length rs) (packet_list rs)"
  using group_ok_res_map [of "\<lambda>r. r" rs] by (simp add: packet_list_def)

lemma packet_list_pair: "sized a \<Longrightarrow> sized b \<Longrightarrow> group_ok 2 (packet_list [a, b])"
  and packet_list_triple:
    "sized a \<Longrightarrow> sized b \<Longrightarrow> sized c \<Longrightarrow> group_ok 3 (packet_list [a, b, c])"
  using packet_list_group [of "[a, b]"] packet_list_group [of "[a, b, c]"]
  by (simp_all add: numeral_eq_Suc)

lemma framed_okI:
  "list_all (\<lambda>f. f \<le> 7) fs \<Longrightarrow> group_ok m g \<Longrightarrow> 0 < m \<Longrightarrow> m \<le> 8 \<Longrightarrow> framed_ok (length fs) (fs, g)"
  by (auto simp: framed_ok_def)

lemma sized_literals [sized_seeds]:
  "sized (Inr ''seed'')" "sized (Inr ''proxy-upgrade-echo'')" "sized (Inr ''gateway-upgrade-echo'')"
  "sized (Inr (crlf_lines [''PROXY TCP6 2001:db8::10 2001:db8::20 12345 80'']))"
  by (simp_all add: encoders)

lemma packet_list_sized:
  "group_ok 2 (packet_list [H2_PREFACE, h2_get ''/''])"
  "group_ok 2 (packet_list [Inr WSTUNNEL_UPGRADE, WSTUNNEL_BACKEND_FRAME])"
  "group_ok 2 (packet_list [H2_WSTUNNEL_HEADERS, H2_WSTUNNEL_DATA])"
  "group_ok 3 (packet_list [Inr H2C_UPGRADE, res_cat [Inr H2_CONNECTION_PREFACE, H2_SETTINGS],
                 h2_request_headers ''GET'' ''/files/index.txt'' True [] 3])"
  "group_ok 2 (packet_list [H2_EXPECT_HEADERS, H2_EXPECT_DATA])"
  by (intro packet_list_pair packet_list_triple sized_seeds)+

lemma framed_groups_sized:
  "list_all2 framed_ok [4, 4, 4, 3, 2, 2, 2, 2, 2, 2, 2, 2, 2, 2, 2, 2, 1, 1, 2, 2] framed_groups"
proof -
  have lit: "framed_ok n (fs, Inr ps)"
    if "length fs = n" "list_all (\<lambda>f. f \<le> 7) fs"
      "list_all (\<lambda>d. sized (Inr d)) ps \<and> 0 < length ps \<and> length ps \<le> 8" for n fs ps
    using that by (auto simp: framed_ok_def)
  have grp: "framed_ok n (fs, g)"
    if "length fs = n" "list_all (\<lambda>f. f \<le> 7) fs" "group_ok m g" "0 < m" "m \<le> 8" for n m fs g
    using that by (auto simp: framed_ok_def)
  show ?thesis
    unfolding framed_groups_def
    by (simp add: lit packet_groups_sized sized_seeds
        grp [OF _ _ packet_list_sized(1)] grp [OF _ _ packet_list_sized(2)]
        grp [OF _ _ packet_list_sized(3)] grp [OF _ _ packet_list_sized(4)]
        grp [OF _ _ packet_list_sized(5)] del: length_greater_0_conv)
qed

lemma base_seeds_ok:
  "list_all (\<lambda>r. \<exists>s. r = Inr s \<and> seed_ok s) base_seeds \<and> length base_seeds = 85"
proof -
  have p: "\<exists>s. plain n r = Inr s \<and> seed_ok s" if "sized r" "n \<le> 1" for n r
    using plain_sized that by blast
  show ?thesis
    unfolding base_seeds_def by (simp add: p sized_seeds)
qed

lemma packet_list_Inr:
  "list_all (\<lambda>r. \<exists>s. r = Inr s \<and> P s) rs \<Longrightarrow>
     \<exists>ss. packet_list rs = Inr ss \<and> length ss = length rs \<and> list_all P ss"
  by (induction rs) (auto simp: packet_list_def)

lemma seed_inputs_ok:
  "\<exists>seeds. seed_inputs = Inr seeds \<and> length seeds = 291
     \<and> list_all harness_ok seeds \<and> list_all (\<lambda>s. length s \<le> 65000) seeds
     \<and> map normalize seeds = seeds"
proof -
  obtain b where b: "packet_list base_seeds = Inr b" "length b = 85" "list_all seed_ok b"
    using packet_list_Inr [of seed_ok base_seeds] base_seeds_ok by auto
  obtain p where p: "res_map plain_all plain_groups = Inr p" "length (concat p) = 161"
      "list_all seed_ok (concat p)"
    using groups_seeds [where f = plain_all, OF plain_all_group plain_groups_sized] by auto
  obtain f where f: "res_map (\<lambda>x. framed (fst x) (snd x)) framed_groups = Inr f"
      "length (concat f) = 45" "list_all seed_ok (concat f)"
    using groups_seeds [where f = "\<lambda>x. framed (fst x) (snd x)", OF framed_group framed_groups_sized]
    by auto
  have "seed_inputs = Inr (b @ concat p @ concat f)"
    using b(1) p(1) f(1) by (simp add: seed_inputs_def case_prod_unfold)
  moreover have "length (b @ concat p @ concat f) = 291"
    using b(2) p(2) f(2) by simp
  moreover have all: "list_all seed_ok (b @ concat p @ concat f)"
    using b(3) p(3) f(3) by simp
  moreover from all have "map normalize (b @ concat p @ concat f) = b @ concat p @ concat f"
    by (intro map_idI) (auto simp: normalize_eq seed_ok_def list_all_iff)
  ultimately show ?thesis by (fastforce simp: seed_ok_def list_all_iff)
qed

section \<open>The split header block\<close>

lemma h2_wire_frame: "h2_item_ok (t, f, sid, p) \<Longrightarrow> h2_frame t f sid p = Inr (h2_wire (t, f, sid, p))"
  by (simp add: h2_wire_eq h2_frame_eq h2_item_ok_def)

lemma H2_PREFACE_eq: "H2_PREFACE = Inr (H2_CONNECTION_PREFACE @ h2_wire (4, 0, 0, []))"
  by (simp add: H2_PREFACE_def H2_SETTINGS_def res_cat_def h2_wire_frame h2_item_ok_def)

lemma H2_split_headers_eq:
  obtains b where "H2_split_headers = Inr b" "length b = 29"
    "parse_all read_field b =
       Some [('':method'', ''GET''), ('':scheme'', ''http''), ('':path'', ''/listing/?json''),
             ('':authority'', ''localhost'')]"
proof -
  obtain b where b: "h2_request_block ''GET'' ''/listing/?json'' [] = Inr b"
    "parse_all read_field b =
       Some ([('':method'', ''GET''), ('':scheme'', ''http''), ('':path'', ''/listing/?json''),
              ('':authority'', ''localhost'')] @ [])"
    by (rule request_block_reads [of "''GET''" "''/listing/?json''" "[]"]) auto
  have l: "length b = 29" using b(1) by (auto simp: encoders)
  then have "H2_split_headers = Inr b"
    by (simp add: H2_split_headers_def h2_get_def h2_request_headers_def b(1) h2_frame_eq)
  with b l that show thesis by simp
qed

section \<open>Properties\<close>

text \<open>C9: building the seed list raises nothing and gives 291 inputs; each of them is one the
  harness runs (a control byte of the three flags and, for the packet sequences, framing that the
  validator accepts), stays below the 65000 bytes libFuzzer is started with, and is left
  alone by \<open>normalize\<close>.\<close>

theorem seed_inputs_runnable:
  "\<exists>seeds. seed_inputs = Inr seeds \<and> length seeds = 291
     \<and> list_all harness_ok seeds \<and> list_all (\<lambda>s. length s \<le> 65000) seeds
     \<and> map normalize seeds = seeds"
  by (rule seed_inputs_ok)

text \<open>\<open>H2_CONTINUATION\<close> is the connection preface, the client's SETTINGS, a HEADERS frame
  without END_HEADERS and a CONTINUATION frame with it, both on stream 1; neither half is empty,
  and the two halves together are the header block of the request for the JSON listing.\<close>

theorem h2_continuation_seed:
  "\<exists>d a b. H2_CONTINUATION = Inr (H2_CONNECTION_PREFACE @ d)
     \<and> parse_all read_h2_frame d = Some [(4, 0, 0, []), (1, 1, 1, a), (9, 4, 1, b)]
     \<and> a \<noteq> [] \<and> b \<noteq> []
     \<and> parse_all read_field (a @ b) =
         Some [('':method'', ''GET''), ('':scheme'', ''http''), ('':path'', ''/listing/?json''),
               ('':authority'', ''localhost'')]"
proof -
  obtain b where b: "H2_split_headers = Inr b" "length b = 29"
    "parse_all read_field b =
       Some [('':method'', ''GET''), ('':scheme'', ''http''), ('':path'', ''/listing/?json''),
             ('':authority'', ''localhost'')]"
    by (rule H2_split_headers_eq)
  define fs :: "h2_item list" where
    "fs = [(4, 0, 0, []), (1, 1, 1, take 14 b), (9, 4, 1, drop 14 b)]"
  have ok: "list_all h2_item_ok fs" using b(2) by (simp add: fs_def h2_item_ok_def)
  have "H2_CONTINUATION = Inr (H2_CONNECTION_PREFACE @ concat (map h2_wire fs))"
    using ok b(2) by (simp add: H2_CONTINUATION_def b(1) Let_def res_cat_def H2_PREFACE_eq
        h2_wire_frame fs_def)
  moreover have "parse_all read_h2_frame (concat (map h2_wire fs)) = Some fs"
    using ok by (rule h2.parse_all_enc)
  moreover have "take 14 b \<noteq> []" "drop 14 b \<noteq> []" using b(2) by auto
  ultimately show ?thesis using b(3) unfolding fs_def by (metis append_take_drop_id)
qed

end
