(* ===== verification/Corpus.thy ===== *)
theory Corpus
  imports Seeds
begin

text \<open>
  \<open>atomic_write\<close> and \<open>main\<close> of normalize-corpus-flags.py over a corpus directory: a map
  from the path of a regular file, relative to the corpus, to its content. The order in which
  \<open>rglob\<close> lists the directory is the argument \<open>entries\<close>; a listed path that is not a
  regular file has no content. What the disk refuses in a run is the argument \<open>flt\<close>: which
  write fails and how far it got, which existing path cannot be read (a directory, or a file
  without permission), and whether the corpus directory cannot be made; the digest that names a seed's file (\<open>hashlib.sha1\<close>) is the argument
  \<open>hexdigest\<close>.
\<close>

section \<open>The directory and atomic_write\<close>

type_synonym path = "string list"
type_synonym fs = "path \<Rightarrow> bytes option"

text \<open>How a write ends: it succeeds, or \<open>write_bytes\<close> or \<open>replace\<close> raises.\<close>

datatype fault = NoFault | WriteFault nat | ReplaceFault

record disk =
  write_fault :: "path \<Rightarrow> bytes \<Rightarrow> fault"
  unreadable :: "path \<Rightarrow> bool"
  mkdir_fails :: bool

definition no_faults :: disk where
  "no_faults = \<lparr>write_fault = (\<lambda>_ _. NoFault), unreadable = (\<lambda>_. False), mkdir_fails = False\<rparr>"

definition temp_path :: "string \<Rightarrow> path \<Rightarrow> path" where
  "temp_path pid p = butlast p @ [''.'' @ last p @ ''.'' @ pid @ ''.tmp'']"

definition atomic_write :: "string \<Rightarrow> fault \<Rightarrow> path \<Rightarrow> bytes \<Rightarrow> fs \<Rightarrow> unit res \<times> fs" where
  "atomic_write pid flt p data fs =
     (let temporary = temp_path pid p in
      case flt of
        WriteFault k \<Rightarrow>
          let fs = fs(temporary \<mapsto> take k data) in (Inl OSError, fs(temporary := None))
      | ReplaceFault \<Rightarrow>
          let fs = fs(temporary \<mapsto> data) in (Inl OSError, fs(temporary := None))
      | NoFault \<Rightarrow>
          let fs = fs(temporary \<mapsto> data);
              fs = (fs(p := fs temporary))(temporary := None) in
          (Inr (), fs(temporary := None)))"

section \<open>main\<close>

fun normalize_loop ::
    "string \<Rightarrow> disk \<Rightarrow> path list \<Rightarrow> nat \<Rightarrow> nat \<Rightarrow> fs \<Rightarrow> (nat \<times> nat) res \<times> fs"
where
  "normalize_loop pid flt [] changed n_empty fs = (Inr (changed, n_empty), fs)"
| "normalize_loop pid flt (p # ps) changed n_empty fs =
     (case fs p of
        None \<Rightarrow> normalize_loop pid flt ps changed n_empty fs
      | Some data \<Rightarrow>
          if unreadable flt p then (Inl OSError, fs)
          else if data = [] then normalize_loop pid flt ps changed (n_empty + 1) fs
          else let normalized = normalize data in
            if normalized \<noteq> data then
              (case atomic_write pid (write_fault flt p normalized) p normalized fs of
                 (Inl e, fs) \<Rightarrow> (Inl e, fs)
               | (Inr _, fs) \<Rightarrow> normalize_loop pid flt ps (changed + 1) n_empty fs)
            else normalize_loop pid flt ps changed n_empty fs)"

fun seed_loop ::
    "(bytes \<Rightarrow> string) \<Rightarrow> string \<Rightarrow> disk \<Rightarrow> bytes list \<Rightarrow> nat \<Rightarrow> fs \<Rightarrow> nat res \<times> fs"
where
  "seed_loop hexdigest pid flt [] added fs = (Inr added, fs)"
| "seed_loop hexdigest pid flt (seed # seeds) added fs =
     (let p = [hexdigest seed] in
      if unreadable flt p then (Inl OSError, fs)
      else if fs p \<noteq> Some seed then
        (case atomic_write pid (write_fault flt p seed) p seed fs of
           (Inl e, fs) \<Rightarrow> (Inl e, fs)
         | (Inr _, fs) \<Rightarrow> seed_loop hexdigest pid flt seeds (added + 1) fs)
      else seed_loop hexdigest pid flt seeds added fs)"

text \<open>The run on a given list of seeds, and \<open>main\<close> with the seeds of the program.\<close>

definition prepare ::
    "(bytes \<Rightarrow> string) \<Rightarrow> bytes list res \<Rightarrow> string \<Rightarrow> disk \<Rightarrow> bool \<Rightarrow> path list
       \<Rightarrow> fs \<Rightarrow> (nat \<times> nat \<times> nat) res \<times> fs"
where
  "prepare hexdigest seeds pid flt seeds_only entries fs =
     (if mkdir_fails flt then (Inl OSError, fs) else
      case (if seeds_only then (Inr (0, 0), fs) else normalize_loop pid flt entries 0 0 fs) of
        (Inl e, fs) \<Rightarrow> (Inl e, fs)
      | (Inr (changed, n_empty), fs) \<Rightarrow>
          (case seeds of
             Inl e \<Rightarrow> (Inl e, fs)
           | Inr ss \<Rightarrow>
               (case seed_loop hexdigest pid flt ss 0 fs of
                  (Inl e, fs) \<Rightarrow> (Inl e, fs)
                | (Inr added, fs) \<Rightarrow> (Inr (changed, added, n_empty), fs))))"

definition corpus_main ::
    "(bytes \<Rightarrow> string) \<Rightarrow> string \<Rightarrow> disk \<Rightarrow> string list \<Rightarrow> path list \<Rightarrow> fs
       \<Rightarrow> string res \<times> fs"
where
  "corpus_main hexdigest pid flt argv entries fs =
     (let seeds_only = (length argv = 3 \<and> argv ! 1 = ''--seeds-only'') in
      if length argv \<noteq> 2 \<and> \<not> seeds_only then
        (case argv of
           [] \<Rightarrow> (Inl IndexError, fs)
         | a # _ \<Rightarrow>
             (Inl (SystemExit (''usage: '' @ a @ '' [--seeds-only] CORPUS_DIRECTORY'')), fs))
      else
        (case prepare hexdigest seed_inputs pid flt seeds_only entries fs of
           (Inl e, fs) \<Rightarrow> (Inl e, fs)
         | (Inr (changed, added, n_empty), fs) \<Rightarrow>
             (Inr (''normalized '' @ show_nat changed @ '' files; added '' @ show_nat added
                   @ '' seed inputs; '' @ ''skipped '' @ show_nat n_empty @ '' empty files''), fs)))"

section \<open>One write\<close>

lemma temp_path_neq [simp]: "temp_path pid p \<noteq> p" "p \<noteq> temp_path pid p"
proof -
  have "last (temp_path pid p) \<noteq> last p"
  proof
    assume "last (temp_path pid p) = last p"
    then have "length (last (temp_path pid p)) = length (last p)" by simp
    then show False by (simp add: temp_path_def)
  qed
  then show "temp_path pid p \<noteq> p" "p \<noteq> temp_path pid p" by auto
qed

text \<open>
  The interface the runs rely on: a write of one file either puts the whole content in place
  or leaves the file as it was, its temporary file is gone either way, and no other file
  changes.
\<close>

locale file_writer =
  fixes put_file :: "fault \<Rightarrow> path \<Rightarrow> bytes \<Rightarrow> fs \<Rightarrow> unit res \<times> fs"
    and temp :: "path \<Rightarrow> path"
  assumes put_done: "put_file NoFault p d fs = (Inr (), (fs(p \<mapsto> d))(temp p := None))"
    and put_fault: "flt \<noteq> NoFault \<Longrightarrow> put_file flt p d fs = (Inl OSError, fs(temp p := None))"
    and temp_other: "temp p \<noteq> p"
begin

lemma put_cases:
  obtains "put_file flt p d fs = (Inr (), (fs(p \<mapsto> d))(temp p := None))"
  | "put_file flt p d fs = (Inl OSError, fs(temp p := None))"
  using put_done put_fault by (cases "flt = NoFault") auto

lemma put_content:
  "snd (put_file flt p d fs) q =
     (if q = temp p then None
      else if q = p \<and> fst (put_file flt p d fs) = Inr () then Some d else fs q)"
  using temp_other by (cases rule: put_cases [of flt p d fs]) auto

end

interpretation aw: file_writer "atomic_write pid" "temp_path pid" for pid
proof
  show "flt \<noteq> NoFault \<Longrightarrow> atomic_write pid flt p d fs = (Inl OSError, fs(temp_path pid p := None))"
    for flt p d fs
    by (cases flt) (auto simp: atomic_write_def)
qed (auto simp: atomic_write_def fun_eq_iff)

section \<open>Whole runs\<close>

text \<open>The temporary files of a run, and the condition that none of them is itself a target.\<close>

definition temps :: "string \<Rightarrow> path set \<Rightarrow> path set" where
  "temps pid ps = temp_path pid ` ps"

definition seed_paths :: "(bytes \<Rightarrow> string) \<Rightarrow> bytes list \<Rightarrow> path set" where
  "seed_paths hexdigest seeds = (\<lambda>s. [hexdigest s]) ` set seeds"

definition separate :: "string \<Rightarrow> path set \<Rightarrow> bool" where
  "separate pid ps \<longleftrightarrow> temps pid ps \<inter> ps = {}"

lemma normalize_idem [simp]: "normalize (normalize d) = normalize d"
  by (cases "d = []") (simp_all add: normalize_eq)

text \<open>One round of each loop: nothing to do, or one write.\<close>

definition wants_write :: "fs \<Rightarrow> path \<Rightarrow> bool" where
  "wants_write fs p \<longleftrightarrow> fs p \<noteq> None \<and> map_option normalize (fs p) \<noteq> fs p"

definition stuck :: "disk \<Rightarrow> fs \<Rightarrow> path \<Rightarrow> bool" where
  "stuck flt fs p \<longleftrightarrow> fs p \<noteq> None \<and> unreadable flt p"

lemma no_faults_simps [simp]:
  "write_fault no_faults p d = NoFault" "\<not> unreadable no_faults p" "\<not> mkdir_fails no_faults"
  "\<not> stuck no_faults fs p"
  by (simp_all add: no_faults_def stuck_def)

lemma normalize_loop_stuck:
  "stuck flt fs p \<Longrightarrow> normalize_loop pid flt (p # ps) c e fs = (Inl OSError, fs)"
  by (auto simp: stuck_def)

lemma normalize_loop_skip:
  "\<not> stuck flt fs p \<Longrightarrow> \<not> wants_write fs p \<Longrightarrow> normalize_loop pid flt (p # ps) c e fs =
     normalize_loop pid flt ps c (if fs p = Some [] then e + 1 else e) fs"
  by (auto simp: wants_write_def stuck_def Let_def split: option.splits)

lemma normalize_loop_write:
  assumes "\<not> stuck flt fs p" "wants_write fs p"
  shows "normalize_loop pid flt (p # ps) c e fs =
     (if write_fault flt p (normalize (the (fs p))) = NoFault
      then normalize_loop pid flt ps (c + 1) e
             ((fs(p := map_option normalize (fs p)))(temp_path pid p := None))
      else (Inl OSError, fs(temp_path pid p := None)))"
proof -
  from assms obtain d where d: "fs p = Some d" "normalize d \<noteq> d" "\<not> unreadable flt p"
    by (auto simp: wants_write_def stuck_def)
  then have "d \<noteq> []" by (auto simp: normalize_eq)
  with d show ?thesis by (simp add: aw.put_done aw.put_fault Let_def)
qed

lemma seed_loop_stuck:
  "unreadable flt [hexdigest s] \<Longrightarrow> seed_loop hexdigest pid flt (s # ss) a fs = (Inl OSError, fs)"
  by simp

lemma seed_loop_skip:
  "\<not> unreadable flt [hexdigest s] \<Longrightarrow> fs [hexdigest s] = Some s \<Longrightarrow>
     seed_loop hexdigest pid flt (s # ss) a fs = seed_loop hexdigest pid flt ss a fs"
  by simp

lemma seed_loop_write:
  "\<not> unreadable flt [hexdigest s] \<Longrightarrow> fs [hexdigest s] \<noteq> Some s \<Longrightarrow> seed_loop hexdigest pid flt (s # ss) a fs =
     (if write_fault flt [hexdigest s] s = NoFault
      then seed_loop hexdigest pid flt ss (a + 1)
             ((fs([hexdigest s] \<mapsto> s))(temp_path pid [hexdigest s] := None))
      else (Inl OSError, fs(temp_path pid [hexdigest s] := None)))"
  by (simp add: aw.put_done aw.put_fault Let_def)

declare normalize_loop.simps(2) [simp del] seed_loop.simps(2) [simp del]

text \<open>
  Whatever fails and wherever: outside the temporary files, a file of the listing has its old
  content or the normalised one, and no other file is touched.
\<close>

lemma normalize_loop_frame:
  assumes "temps pid (set es) \<subseteq> T" "T \<inter> set es = {}"
    and "normalize_loop pid flt es c e fs = (r, fs')" and "q \<notin> T"
  shows "fs' q = fs q \<or> q \<in> set es \<and> fs' q = map_option normalize (fs q)"
  using assms
proof (induction es arbitrary: c e fs)
  case (Cons p ps)
  let ?fs = "(fs(p := map_option normalize (fs p)))(temp_path pid p := None)"
  have T: "temp_path pid p \<in> T" "p \<notin> T" "temps pid (set ps) \<subseteq> T" "T \<inter> set ps = {}"
    using Cons.prems(1,2) by (auto simp: temps_def)
  then have q: "q \<noteq> temp_path pid p" using Cons.prems(4) by auto
  consider (stuck) "stuck flt fs p" | (skip) "\<not> stuck flt fs p" "\<not> wants_write fs p"
    | (put) "\<not> stuck flt fs p" "wants_write fs p" by blast
  then show ?case
  proof cases
    case stuck
    with Cons.prems(3) show ?thesis by (simp add: normalize_loop_stuck)
  next
    case skip
    with Cons.prems(3) Cons.IH [OF T(3,4) _ Cons.prems(4)] show ?thesis
      by (auto simp: normalize_loop_skip)
  next
    case put
    show ?thesis
    proof (cases "write_fault flt p (normalize (the (fs p))) = NoFault")
      case ok: True
      with Cons.prems(3) put have "normalize_loop pid flt ps (c + 1) e ?fs = (r, fs')"
        by (simp add: normalize_loop_write)
      from Cons.IH [OF T(3,4) this Cons.prems(4)] T(1) Cons.prems(4) show ?thesis
        by (auto simp: option.map_comp o_def split: if_splits)
    next
      case False
      with Cons.prems(3) put q show ?thesis by (auto simp: normalize_loop_write)
    qed
  qed
qed simp

text \<open>A run of the loop that ends normally has normalised every file of the listing.\<close>

lemma normalize_loop_done:
  assumes "temps pid (set es) \<subseteq> T" "T \<inter> set es = {}"
    and "normalize_loop pid flt es c e fs = (Inr x, fs')" and "q \<in> set es"
  shows "fs' q = map_option normalize (fs q)"
  using assms
proof (induction es arbitrary: c e fs)
  case (Cons p ps)
  let ?fs = "(fs(p := map_option normalize (fs p)))(temp_path pid p := None)"
  have T: "temp_path pid p \<in> T" "p \<notin> T" "temps pid (set ps) \<subseteq> T" "T \<inter> set ps = {}" "q \<notin> T"
    using Cons.prems(1,2,4) by (auto simp: temps_def)
  then have q: "q \<noteq> temp_path pid p" by auto
  have ns: "\<not> stuck flt fs p" using Cons.prems(3) by (auto simp: normalize_loop_stuck)
  obtain c2 e2 fs2 where step: "normalize_loop pid flt ps c2 e2 fs2 = (Inr x, fs')"
    and p: "fs2 p = map_option normalize (fs p)" and o: "q \<noteq> p \<Longrightarrow> fs2 q = fs q"
  proof (cases "wants_write fs p")
    case False
    then have "fs p = map_option normalize (fs p)" by (auto simp: wants_write_def)
    with False ns Cons.prems(3) that [of c _ fs] show ?thesis by (auto simp: normalize_loop_skip)
  next
    case True
    with ns Cons.prems(3) q that [of "c + 1" e ?fs] show ?thesis
      by (auto simp: normalize_loop_write split: if_splits)
  qed
  show ?case
  proof (cases "q \<in> set ps")
    case True
    with Cons.IH [OF T(3,4) step] p o show ?thesis
      by (cases "q = p") (auto simp: option.map_comp o_def)
  next
    case False
    with Cons.prems(4) have "q = p" by simp
    with normalize_loop_frame [OF T(3,4) step T(5)] p show ?thesis
      by (auto simp: option.map_comp o_def)
  qed
qed simp

lemma normalize_loop_temps:
  assumes "temps pid (set es) \<subseteq> T" "T \<inter> set es = {}"
    and "normalize_loop pid flt es c e fs = (r, fs')" and "q \<in> T"
  shows "fs' q = fs q \<or> fs' q = None"
  using assms
proof (induction es arbitrary: c e fs)
  case (Cons p ps)
  have T: "q \<noteq> p" "temps pid (set ps) \<subseteq> T" "T \<inter> set ps = {}"
    using Cons.prems(1,2,4) by (auto simp: temps_def)
  consider (stuck) "stuck flt fs p" | (skip) "\<not> stuck flt fs p" "\<not> wants_write fs p"
    | (put) "\<not> stuck flt fs p" "wants_write fs p" by blast
  then show ?case
  proof cases
    case stuck
    with Cons.prems(3) show ?thesis by (simp add: normalize_loop_stuck)
  next
    case skip
    with Cons.prems(3) Cons.IH [OF T(2,3) _ Cons.prems(4)] show ?thesis
      by (simp add: normalize_loop_skip)
  next
    case put
    with Cons.prems(3) T(1) Cons.IH [OF T(2,3) _ Cons.prems(4)] show ?thesis
      by (fastforce simp: normalize_loop_write split: if_splits)
  qed
qed simp

lemma normalize_loop_total:
  "\<exists>x fs'. normalize_loop pid no_faults es c e fs = (Inr x, fs')"
proof (induction es arbitrary: c e fs)
  case (Cons p ps)
  then show ?case
    by (cases "wants_write fs p") (simp_all add: normalize_loop_skip normalize_loop_write)
qed simp

lemma normalize_loop_quiet:
  assumes "\<forall>p \<in> set es. \<not> stuck flt fs p \<and> \<not> wants_write fs p"
  shows "\<exists>e'. normalize_loop pid flt es c e fs = (Inr (c, e'), fs)"
  using assms by (induction es arbitrary: e) (simp_all add: normalize_loop_skip)

subsection \<open>The seed loop\<close>

lemma seed_paths_Cons: "seed_paths h (s # ss) = insert [h s] (seed_paths h ss)"
  by (simp add: seed_paths_def)

lemma seed_loop_frame:
  assumes "temps pid (seed_paths h ss) \<subseteq> T" "T \<inter> seed_paths h ss = {}"
    and "seed_loop h pid flt ss a fs = (r, fs')"
  shows "(q \<notin> T \<longrightarrow> fs' q = fs q \<or> (\<exists>s \<in> set ss. q = [h s] \<and> fs' q = Some s))
    \<and> (q \<in> T \<longrightarrow> fs' q = fs q \<or> fs' q = None)"
  using assms
proof (induction ss arbitrary: a fs)
  case (Cons s ss)
  have T: "temp_path pid [h s] \<in> T" "[h s] \<notin> T" "temps pid (seed_paths h ss) \<subseteq> T"
      "T \<inter> seed_paths h ss = {}"
    using Cons.prems(1,2) by (auto simp: temps_def seed_paths_def)
  note IH = Cons.IH [OF T(3,4)]
  consider (stuck) "unreadable flt [h s]" | (skip) "\<not> unreadable flt [h s]" "fs [h s] = Some s"
    | (put) "\<not> unreadable flt [h s]" "fs [h s] \<noteq> Some s" by blast
  then show ?case
  proof cases
    case stuck
    with Cons.prems(3) show ?thesis by (auto simp: seed_loop_stuck)
  next
    case skip
    with IH Cons.prems(3) show ?thesis by (fastforce simp: seed_loop_skip)
  next
    case put
    show ?thesis
    proof (cases "write_fault flt [h s] s = NoFault")
      case True
      with put Cons.prems(3) have
        "seed_loop h pid flt ss (a + 1) ((fs([h s] \<mapsto> s))(temp_path pid [h s] := None)) = (r, fs')"
        by (simp add: seed_loop_write)
      from IH [OF this] T(1,2) show ?thesis
        by (cases "q = [h s]"; cases "q = temp_path pid [h s]") (auto simp del: temp_path_neq)
    next
      case flt: False
      with put Cons.prems(3) T(1,2) show ?thesis
        by (cases "q = temp_path pid [h s]") (auto simp: seed_loop_write)
    qed
  qed
qed simp

lemma seed_loop_done:
  assumes "temps pid (seed_paths h ss) \<subseteq> T" "T \<inter> seed_paths h ss = {}"
    and "inj_on h (set ss)"
    and "seed_loop h pid flt ss a fs = (Inr x, fs')" and "s \<in> set ss"
  shows "fs' [h s] = Some s"
  using assms
proof (induction ss arbitrary: a fs)
  case (Cons s1 ss)
  have T: "temps pid (seed_paths h ss) \<subseteq> T" "T \<inter> seed_paths h ss = {}" "inj_on h (set ss)"
    using Cons.prems(1,2,3) by (auto simp: temps_def seed_paths_def)
  have ns: "\<not> unreadable flt [h s1]" using Cons.prems(4) by (auto simp: seed_loop_stuck)
  obtain a2 fs2 where step: "seed_loop h pid flt ss a2 fs2 = (Inr x, fs')" "fs2 [h s1] = Some s1"
  proof (cases "fs [h s1] = Some s1")
    case True
    with ns Cons.prems(4) that show ?thesis by (simp add: seed_loop_skip)
  next
    case False
    with ns Cons.prems(4) that [of "a + 1" "(fs([h s1] \<mapsto> s1))(temp_path pid [h s1] := None)"]
    show ?thesis by (simp add: seed_loop_write split: if_splits)
  qed
  show ?case
  proof (cases "s \<in> set ss")
    case True
    then show ?thesis by (rule Cons.IH [OF T step(1)])
  next
    case False
    with Cons.prems(5) have s: "s = s1" "s1 \<notin> set ss" by auto
    have "[h s1] \<notin> T" using Cons.prems(2) by (auto simp: seed_paths_def)
    then have "fs' [h s1] = fs2 [h s1] \<or> (\<exists>t \<in> set ss. [h s1] = [h t] \<and> fs' [h s1] = Some t)"
      using seed_loop_frame [OF T(1,2) step(1), of "[h s1]"] by blast
    with Cons.prems(3) s step(2) show ?thesis by (auto simp: inj_on_def)
  qed
qed simp

lemma seed_loop_total:
  "\<exists>x fs'. seed_loop h pid no_faults ss a fs = (Inr x, fs')"
proof (induction ss arbitrary: a fs)
  case (Cons s ss)
  then show ?case
    by (cases "fs [h s] = Some s") (simp_all add: seed_loop_skip seed_loop_write)
qed simp

lemma seed_loop_quiet:
  "\<forall>s \<in> set ss. \<not> unreadable flt [h s] \<and> fs [h s] = Some s \<Longrightarrow> seed_loop h pid flt ss a fs = (Inr a, fs)"
  by (induction ss) (simp_all add: seed_loop_skip)

subsection \<open>Both loops\<close>

lemma separate_parts:
  assumes "separate pid (set es \<union> seed_paths h ss)"
  defines "T \<equiv> temps pid (set es \<union> seed_paths h ss)"
  shows "temps pid (set es) \<subseteq> T" "T \<inter> set es = {}"
    "temps pid (seed_paths h ss) \<subseteq> T" "T \<inter> seed_paths h ss = {}"
  using assms by (auto simp: separate_def temps_def)

lemma prepare_frame:
  assumes sep: "separate pid (set es \<union> seed_paths h ss)"
    and run: "prepare h (Inr ss) pid flt so es fs = (r, fs')"
  shows "(q \<notin> temps pid (set es \<union> seed_paths h ss) \<longrightarrow>
      fs' q = fs q \<or> \<not> so \<and> q \<in> set es \<and> fs' q = map_option normalize (fs q)
      \<or> (\<exists>s \<in> set ss. q = [h s] \<and> fs' q = Some s))
    \<and> (q \<in> temps pid (set es \<union> seed_paths h ss) \<longrightarrow> fs' q = fs q \<or> fs' q = None)"
proof -
  note T = separate_parts [OF sep]
  consider (unmade) "mkdir_fails flt" | (made) "\<not> mkdir_fails flt" by blast
  then show ?thesis
  proof cases
    case unmade
    with run show ?thesis by (simp add: prepare_def)
  next
    case made
    obtain r1 fs1 where 1: "(if so then (Inr (0, 0), fs) else normalize_loop pid flt es 0 0 fs) = (r1, fs1)"
      by (cases "if so then (Inr (0, 0), fs) else normalize_loop pid flt es 0 0 fs") auto
    have n: "(q \<notin> temps pid (set es \<union> seed_paths h ss) \<longrightarrow>
          fs1 q = fs q \<or> \<not> so \<and> q \<in> set es \<and> fs1 q = map_option normalize (fs q))
        \<and> (q \<in> temps pid (set es \<union> seed_paths h ss) \<longrightarrow> fs1 q = fs q \<or> fs1 q = None)"
      using 1 normalize_loop_frame [OF T(1,2), of flt 0 0 fs r1 fs1 q]
        normalize_loop_temps [OF T(1,2), of flt 0 0 fs r1 fs1 q]
      by (cases so) auto
    show ?thesis
    proof (cases r1)
      case (Inl e)
      with made run 1 n show ?thesis by (auto simp: prepare_def)
    next
      case (Inr ce)
      obtain c e where "ce = (c, e)" by (cases ce)
      obtain r2 fs2 where 2: "seed_loop h pid flt ss 0 fs1 = (r2, fs2)"
        by (cases "seed_loop h pid flt ss 0 fs1")
      with made run 1 Inr \<open>ce = (c, e)\<close> have "fs' = fs2"
        by (auto simp: prepare_def split: sum.splits)
      with n seed_loop_frame [OF T(3,4) 2, of q] show ?thesis by auto
    qed
  qed
qed

lemma prepare_Inr_cases:
  assumes "prepare h (Inr ss) pid flt False es fs = (Inr x, fs')"
  obtains c e a fs1 where "normalize_loop pid flt es 0 0 fs = (Inr (c, e), fs1)"
    "seed_loop h pid flt ss 0 fs1 = (Inr a, fs')"
  using assms by (auto simp: prepare_def split: prod.splits sum.splits if_splits)

lemma prepare_done:
  assumes sep: "separate pid (set es \<union> seed_paths h ss)" and inj: "inj_on h (set ss)"
    and run: "prepare h (Inr ss) pid flt False es fs = (Inr x, fs')"
  shows "q \<in> set es - seed_paths h ss \<Longrightarrow> fs' q = map_option normalize (fs q)"
    and "s \<in> set ss \<Longrightarrow> fs' [h s] = Some s"
proof -
  note T = separate_parts [OF sep]
  obtain c e a fs1 where l: "normalize_loop pid flt es 0 0 fs = (Inr (c, e), fs1)"
      "seed_loop h pid flt ss 0 fs1 = (Inr a, fs')"
    using run by (rule prepare_Inr_cases)
  show "s \<in> set ss \<Longrightarrow> fs' [h s] = Some s"
    by (rule seed_loop_done [OF T(3,4) inj l(2)])
  assume q: "q \<in> set es - seed_paths h ss"
  then have "fs' q = fs1 q"
    using seed_loop_frame [OF T(3,4) l(2), of q] T(2) by (auto simp: seed_paths_def)
  with q normalize_loop_done [OF T(1,2) l(1), of q] show "fs' q = map_option normalize (fs q)"
    by simp
qed

lemma prepare_again:
  assumes sep: "separate pid (set es \<union> seed_paths h ss)" and inj: "inj_on h (set ss)"
    and run: "prepare h (Inr ss) pid flt False es fs = (Inr x, fs')"
    and ok: "list_all harness_ok ss" and sub: "set es2 \<subseteq> set es \<union> seed_paths h ss"
    and disk: "\<not> mkdir_fails flt2" "\<forall>p \<in> set es2 \<union> seed_paths h ss. \<not> unreadable flt2 p"
  shows "\<exists>e. prepare h (Inr ss) pid2 flt2 False es2 fs' = (Inr (0, 0, e), fs')"
proof -
  note fin = prepare_done [OF sep inj run]
  have "\<not> wants_write fs' p" if p: "p \<in> set es2" for p
  proof (cases "p \<in> seed_paths h ss")
    case True
    then obtain s where "s \<in> set ss" "p = [h s]" by (auto simp: seed_paths_def)
    with fin(2) ok show ?thesis by (auto simp: wants_write_def normalize_eq list_all_iff)
  next
    case False
    with p sub fin(1) [of p] show ?thesis
      by (auto simp: wants_write_def option.map_comp o_def)
  qed
  with disk(2) have "\<forall>p \<in> set es2. \<not> stuck flt2 fs' p \<and> \<not> wants_write fs' p"
    by (auto simp: stuck_def)
  then obtain e where "normalize_loop pid2 flt2 es2 0 0 fs' = (Inr (0, e), fs')"
    using normalize_loop_quiet by blast
  moreover have "\<forall>s \<in> set ss. \<not> unreadable flt2 [h s] \<and> fs' [h s] = Some s"
    using disk(2) fin(2) by (auto simp: seed_paths_def)
  ultimately show ?thesis
    using seed_loop_quiet disk(1) by (simp add: prepare_def)
qed

lemma prepare_total:
  "\<exists>x fs'. prepare h (Inr ss) pid no_faults so es fs = (Inr x, fs')"
proof -
  obtain c e fs1 where
    "(if so then (Inr (0, 0), fs) else normalize_loop pid no_faults es 0 0 fs) = (Inr (c, e), fs1)"
    using normalize_loop_total [of pid es 0 0 fs] by (cases so) auto
  with seed_loop_total [of h pid ss 0 fs1] show ?thesis by (auto simp: prepare_def)
qed

lemma corpus_main_dir:
  "seed_inputs = Inr seeds \<Longrightarrow> corpus_main h pid flt [prog, dir] es fs =
     (case prepare h (Inr seeds) pid flt False es fs of
        (Inl e, fs') \<Rightarrow> (Inl e, fs')
      | (Inr (c, a, e), fs') \<Rightarrow>
          (Inr (''normalized '' @ show_nat c @ '' files; added '' @ show_nat a
                @ '' seed inputs; '' @ ''skipped '' @ show_nat e @ '' empty files''), fs'))"
  by (simp add: corpus_main_def)

lemma corpus_main_seeds_only:
  "seed_inputs = Inr seeds \<Longrightarrow> corpus_main h pid flt [prog, ''--seeds-only'', dir] es fs =
     (case prepare h (Inr seeds) pid flt True es fs of
        (Inl e, fs') \<Rightarrow> (Inl e, fs')
      | (Inr (c, a, e), fs') \<Rightarrow>
          (Inr (''normalized '' @ show_nat c @ '' files; added '' @ show_nat a
                @ '' seed inputs; '' @ ''skipped '' @ show_nat e @ '' empty files''), fs'))"
  by (simp add: corpus_main_def)

section \<open>Properties\<close>

text \<open>C11: when \<open>main\<close> ends normally on a corpus directory, every listed file holds the
  normalised form of what it held and every seed is stored, whole, under its digest; and a second
  run over those files, whatever its process id and the order of its listing, reports nothing
  normalised and nothing added and leaves the directory as it is, when nothing in it has become
  unreadable. The digests of the seeds are
  assumed to differ and no temporary name to be the name of a listed file or of a seed.\<close>

theorem corpus_main_idempotent:
  assumes "seed_inputs = Inr seeds"
    and "inj_on hexdigest (set seeds)"
    and "separate pid (set es \<union> seed_paths hexdigest seeds)"
    and "corpus_main hexdigest pid flt [prog, dir] es fs = (Inr msg, fs')"
    and "set es2 \<subseteq> set es \<union> seed_paths hexdigest seeds"
    and "\<not> mkdir_fails flt2" "\<forall>p \<in> set es2 \<union> seed_paths hexdigest seeds. \<not> unreadable flt2 p"
  shows "(\<forall>q \<in> set es - seed_paths hexdigest seeds. fs' q = map_option normalize (fs q))
    \<and> (\<forall>s \<in> set seeds. fs' [hexdigest s] = Some s)
    \<and> (\<exists>n. corpus_main hexdigest pid2 flt2 [prog, dir] es2 fs' =
          (Inr (''normalized 0 files; added 0 seed inputs; skipped '' @ show_nat n @ '' empty files''),
           fs'))"
proof -
  obtain x where run: "prepare hexdigest (Inr seeds) pid flt False es fs = (Inr x, fs')"
    using assms(4) by (auto simp: corpus_main_dir [OF assms(1)] split: prod.splits sum.splits)
  have ok: "list_all harness_ok seeds"
    using seed_inputs_ok assms(1) by (metis sum.inject(2))
  note fin = prepare_done [OF assms(3,2) run]
  obtain e where "prepare hexdigest (Inr seeds) pid2 flt2 False es2 fs' = (Inr (0, 0, e), fs')"
    using prepare_again [OF assms(3,2) run ok assms(5,6,7)] by blast
  then have "corpus_main hexdigest pid2 flt2 [prog, dir] es2 fs' =
      (Inr (''normalized 0 files; added 0 seed inputs; skipped '' @ show_nat e @ '' empty files''), fs')"
    by (simp add: corpus_main_dir [OF assms(1)] show_nat.simps [of 0] char_of_def bit_0)
  with fin show ?thesis by blast
qed

lemma corpus_main_idempotent_witness:
  "\<exists>seeds msg fs'. seed_inputs = Inr seeds
     \<and> corpus_main (\<lambda>s. ''d'' @ s) ''1'' no_faults [''normalize'', ''corpus''] [[''raw'']]
         [[''raw''] \<mapsto> ''GET /''] = (Inr msg, fs')
     \<and> fs' [''raw''] = Some (mk_byte 0 # ''GET /'')"
proof -
  let ?h = "\<lambda>s. ''d'' @ s" and ?fs = "[[''raw''] \<mapsto> ''GET /''] :: fs"
  obtain seeds where s: "seed_inputs = Inr seeds" using seed_inputs_ok by blast
  obtain msg fs' where run: "corpus_main ?h ''1'' no_faults [''normalize'', ''corpus'']
      [[''raw'']] ?fs = (Inr msg, fs')"
    using prepare_total [of ?h seeds "''1''" False "[[''raw'']]" ?fs]
    by (fastforce simp: corpus_main_dir [OF s])
  have sep: "separate ''1'' (set [[''raw'']] \<union> seed_paths ?h seeds)"
    by (auto simp: separate_def temps_def temp_path_def seed_paths_def)
  have "inj_on ?h (set seeds)" by (auto simp: inj_on_def)
  from corpus_main_idempotent [OF s this sep run, of "[]" no_faults]
  have "fs' [''raw''] = map_option normalize (?fs [''raw''])"
    by (auto simp: seed_paths_def)
  with s run show ?thesis by (auto simp: normalize_eq harness_ok_def)
qed

text \<open>C12: whichever write or read fails, and however much of a write reached the disk, no file of the corpus
  is ever left torn: each one holds what it held, its normalised form, or (under its digest) a
  whole seed, and no temporary file is left that was not there before.\<close>

theorem corpus_main_crash_safe:
  assumes "seed_inputs = Inr seeds"
    and "separate pid (set es \<union> seed_paths hexdigest seeds)"
    and "corpus_main hexdigest pid flt [prog, dir] es fs = (r, fs')"
  shows "if q \<in> temps pid (set es \<union> seed_paths hexdigest seeds)
    then fs' q = fs q \<or> fs' q = None
    else fs' q = fs q \<or> fs' q = map_option normalize (fs q)
       \<or> (\<exists>s \<in> set seeds. q = [hexdigest s] \<and> fs' q = Some s)"
proof -
  obtain r2 where run: "prepare hexdigest (Inr seeds) pid flt False es fs = (r2, fs')"
    using assms(3) by (auto simp: corpus_main_dir [OF assms(1)] split: prod.splits sum.splits)
  from prepare_frame [OF assms(2) run, of q] show ?thesis by auto
qed

lemma corpus_main_crash_safe_witness:
  "\<exists>fs'. corpus_main (\<lambda>s. ''d'' @ s) ''1'' (no_faults\<lparr>write_fault := \<lambda>_ _. WriteFault 3\<rparr>) [''normalize'', ''corpus'']
      [[''raw'']] [[''raw''] \<mapsto> ''GET /''] = (Inl OSError, fs')
    \<and> (fs' [''raw''] = Some ''GET /'' \<or> fs' [''raw''] = Some (mk_byte 0 # ''GET /''))"
proof -
  let ?h = "\<lambda>s. ''d'' @ s" and ?fs = "[[''raw''] \<mapsto> ''GET /''] :: fs"
  obtain seeds where s: "seed_inputs = Inr seeds" using seed_inputs_ok by blast
  have w: "\<not> stuck (no_faults\<lparr>write_fault := \<lambda>_ _. WriteFault 3\<rparr>) ?fs [''raw'']" "wants_write ?fs [''raw'']"
    by (simp_all add: wants_write_def normalize_eq harness_ok_def stuck_def no_faults_def)
  obtain fs' where run: "corpus_main ?h ''1'' (no_faults\<lparr>write_fault := \<lambda>_ _. WriteFault 3\<rparr>) [''normalize'', ''corpus'']
      [[''raw'']] ?fs = (Inl OSError, fs')"
    by (simp add: corpus_main_dir [OF s] prepare_def normalize_loop_write [OF w])
  have sep: "separate ''1'' (set [[''raw'']] \<union> seed_paths ?h seeds)"
    by (auto simp: separate_def temps_def temp_path_def seed_paths_def)
  from corpus_main_crash_safe [OF s sep run, of "[''raw'']"] run show ?thesis
    by (auto simp: normalize_eq harness_ok_def temps_def temp_path_def seed_paths_def
        split: if_splits)
qed

text \<open>C13: with \<open>--seeds-only\<close>, as build staging runs it next to a live campaign, no file but
  those named by a seed's digest (and the run's own temporary files) changes, whatever it holds.\<close>

theorem corpus_main_seeds_only_keeps:
  assumes "seed_inputs = Inr seeds"
    and "separate pid (seed_paths hexdigest seeds)"
    and "corpus_main hexdigest pid flt [prog, ''--seeds-only'', dir] es fs = (r, fs')"
    and "q \<notin> seed_paths hexdigest seeds" and "q \<notin> temps pid (seed_paths hexdigest seeds)"
  shows "fs' q = fs q"
proof -
  obtain r2 where "prepare hexdigest (Inr seeds) pid flt True es fs = (r2, fs')"
    using assms(3) by (auto simp: corpus_main_seeds_only [OF assms(1)] split: prod.splits sum.splits)
  then have run: "prepare hexdigest (Inr seeds) pid flt True [] fs = (r2, fs')"
    by (cases "mkdir_fails flt") (simp_all add: prepare_def)
  have sep: "separate pid (set [] \<union> seed_paths hexdigest seeds)" using assms(2) by simp
  from prepare_frame [OF sep run, of q] assms(4,5) show ?thesis
    by (auto simp: seed_paths_def)
qed

lemma corpus_main_seeds_only_keeps_witness:
  "\<exists>msg fs'. corpus_main (\<lambda>s. ''d'' @ s) ''1'' no_faults
      [''normalize'', ''--seeds-only'', ''corpus''] [[''raw'']] [[''raw''] \<mapsto> ''GET /''] = (Inr msg, fs')
    \<and> fs' [''raw''] = Some ''GET /''"
proof -
  let ?h = "\<lambda>s. ''d'' @ s" and ?fs = "[[''raw''] \<mapsto> ''GET /''] :: fs"
  obtain seeds where s: "seed_inputs = Inr seeds" using seed_inputs_ok by blast
  obtain msg fs' where run: "corpus_main ?h ''1'' no_faults
      [''normalize'', ''--seeds-only'', ''corpus''] [[''raw'']] ?fs = (Inr msg, fs')"
    using prepare_total [of ?h seeds "''1''" True "[[''raw'']]" ?fs]
    by (fastforce simp: corpus_main_seeds_only [OF s])
  have sep: "separate ''1'' (seed_paths ?h seeds)"
    by (auto simp: separate_def temps_def temp_path_def seed_paths_def)
  from corpus_main_seeds_only_keeps [OF s sep run, of "[''raw'']"] run show ?thesis
    by (auto simp: temps_def temp_path_def seed_paths_def image_iff)
qed

end
