(* ===== verification/Sockets.thy ===== *)
theory Sockets
  imports Prelude
begin

text \<open>
  The socket a backend handler talks to, and the loops backend-responder.py runs on it:
  \<open>_recv_exact\<close>, \<open>_recv_headers\<close> and \<open>_send\<close>.

  The peer is data of the socket: \<open>rx\<close> is what \<open>recv\<close> will meet (chunks of bytes as the
  network delivers them, time-outs, resets; nothing left is an orderly end of stream), \<open>tx\<close>
  is every byte the socket has accepted, and \<open>accepts\<close> says how many bytes each coming
  \<open>send\<close> takes or that it fails or times out (nothing left: everything is taken). Sleeping and time are
  not modelled; a time-out happens when \<open>rx\<close> or \<open>accepts\<close> says so, and \<open>timeout\<close> is the
  socket's setting in milliseconds.

  Both receive loops are proved against a contract of a byte source, \<open>byte_source\<close>, so what
  they return depends on the bytes the peer sends and not on how the network cuts them.
\<close>

section \<open>The socket\<close>

datatype rx_event = Chunk bytes | RxTimeout | RxReset
datatype tx_event = Accept nat | TxFail | TxTimeout

record sock =
  rx :: "rx_event list"
  tx :: bytes
  accepts :: "tx_event list"
  timeout :: nat

type_synonym 'a io = "sock \<Rightarrow> 'a res \<times> sock"

definition io_return :: "'a \<Rightarrow> 'a io" where
  "io_return x s = (Inr x, s)"

definition io_raise :: "py_error \<Rightarrow> 'a io" where
  "io_raise e s = (Inl e, s)"

definition io_lift :: "'a res \<Rightarrow> 'a io" where
  "io_lift r s = (r, s)"

definition io_bind :: "'a io \<Rightarrow> ('a \<Rightarrow> 'b io) \<Rightarrow> 'b io" where
  "io_bind m f s = (case m s of (Inl e, s') \<Rightarrow> (Inl e, s') | (Inr x, s') \<Rightarrow> f x s')"

fun rx_read :: "nat \<Rightarrow> rx_event list \<Rightarrow> bytes res \<times> rx_event list" where
  "rx_read n [] = (Inr [], [])"
| "rx_read n (Chunk d # es) =
     (if d = [] then rx_read n es
      else if length d \<le> n then (Inr d, es)
      else (Inr (take n d), Chunk (drop n d) # es))"
| "rx_read n (RxTimeout # es) = (Inl SocketTimeout, es)"
| "rx_read n (RxReset # es) = (Inl OSError, es)"

definition recv :: "nat \<Rightarrow> bytes io" where
  "recv n s = (case rx_read n (rx s) of (r, es) \<Rightarrow> (r, s\<lparr>rx := es\<rparr>))"

definition sock_send :: "bytes \<Rightarrow> nat io" where
  "sock_send data s =
     (case accepts s of
        [] \<Rightarrow> (Inr (length data), s\<lparr>tx := tx s @ data\<rparr>)
      | Accept k # as \<Rightarrow>
          (Inr (min k (length data)), s\<lparr>tx := tx s @ take k data, accepts := as\<rparr>)
      | TxFail # as \<Rightarrow> (Inl OSError, s\<lparr>accepts := as\<rparr>)
      | TxTimeout # as \<Rightarrow> (Inl SocketTimeout, s\<lparr>accepts := as\<rparr>))"

text \<open>\<open>sendall\<close> sends until everything is taken or a send fails.\<close>

fun tx_all :: "tx_event list \<Rightarrow> bytes \<Rightarrow> unit res \<times> bytes \<times> tx_event list" where
  "tx_all as [] = (Inr (), [], as)"
| "tx_all [] data = (Inr (), data, [])"
| "tx_all (Accept k # as) data =
     (case tx_all as (drop k data) of (r, out, as') \<Rightarrow> (r, take k data @ out, as'))"
| "tx_all (TxFail # as) data = (Inl OSError, [], as)"
| "tx_all (TxTimeout # as) data = (Inl SocketTimeout, [], as)"

definition sendall :: "bytes \<Rightarrow> unit io" where
  "sendall data s =
     (case tx_all (accepts s) data of
        (r, out, as) \<Rightarrow> (r, s\<lparr>tx := tx s @ out, accepts := as\<rparr>))"

lemma io_simps [simp]:
  "io_return x s = (Inr x, s)"
  "io_raise e s = (Inl e, s)"
  "io_lift r s = (r, s)"
  "m s = (Inl e, s') \<Longrightarrow> io_bind m f s = (Inl e, s')"
  "m s = (Inr x, s') \<Longrightarrow> io_bind m f s = f x s'"
  by (simp_all add: io_return_def io_raise_def io_lift_def io_bind_def)

lemma io_bind_Inr_iff:
  "io_bind m f s = (Inr x, s') \<longleftrightarrow> (\<exists>y s1. m s = (Inr y, s1) \<and> f y s1 = (Inr x, s'))"
  by (auto simp: io_bind_def split: prod.splits sum.splits)

section \<open>_recv_exact and _recv_headers\<close>

function recv_exact_loop ::
    "(nat \<Rightarrow> 's \<Rightarrow> bytes res \<times> 's) \<Rightarrow> nat \<Rightarrow> bytes \<Rightarrow> 's \<Rightarrow> bytes res \<times> 's" where
  "recv_exact_loop get len data s =
     (if length data < len then
        (case get (len - length data) s of
           (Inl e, s) \<Rightarrow> (Inl e, s)
         | (Inr block, s) \<Rightarrow>
             if block = [] then (Inl EOFError, s)
             else recv_exact_loop get len (data @ block) s)
      else (Inr data, s))"
  by pat_completeness auto
termination
  by (relation "measure (\<lambda>(get, len, data, s). len - length data)")
     (auto simp: diff_less_mono2)

declare recv_exact_loop.simps [simp del]

definition recv_exact :: "nat \<Rightarrow> bytes io" where
  "recv_exact len s = recv_exact_loop recv len [] s"

definition MAX_HEADERS :: nat where "MAX_HEADERS = 64 * 1024"

function recv_headers_loop ::
    "(nat \<Rightarrow> 's \<Rightarrow> bytes res \<times> 's) \<Rightarrow> nat \<Rightarrow> bytes \<Rightarrow> 's \<Rightarrow> (bytes \<times> bytes) res \<times> 's" where
  "recv_headers_loop get limit data s =
     (if length data \<le> limit then
        (case get (min 4096 (limit + 1 - length data)) s of
           (Inl e, s) \<Rightarrow> (Inl e, s)
         | (Inr block, s) \<Rightarrow>
             if block = [] then (Inl EOFError, s)
             else let data = data @ block in
               (case find_sub crlf2 data of
                  Some marker \<Rightarrow> (Inr (take (marker + 4) data, drop (marker + 4) data), s)
                | None \<Rightarrow> recv_headers_loop get limit data s))
      else (Inl (ValueError ''headers too large''), s))"
  by pat_completeness auto
termination
  by (relation "measure (\<lambda>(get, limit, data, s). limit + 1 - length data)")
     (auto simp: diff_less_mono2)

declare recv_headers_loop.simps [simp del]

definition recv_headers :: "(bytes \<times> bytes) io" where
  "recv_headers s = recv_headers_loop recv MAX_HEADERS [] s"

definition set_timeout :: "nat \<Rightarrow> sock \<Rightarrow> sock" where
  "set_timeout ms s = s\<lparr>timeout := ms\<rparr>"

section \<open>_send\<close>

function send_partial :: "bytes \<Rightarrow> sock \<Rightarrow> unit res \<times> sock" where
  "send_partial view s =
     (if view \<noteq> [] then
        (case sock_send (take 3 view) s of
           (Inl e, s) \<Rightarrow> (Inl e, s)
         | (Inr sent, s) \<Rightarrow>
             if sent = 0 then (Inl (ConnectionError ''short socket write''), s)
             else send_partial (drop sent view) s)
      else (Inr (), s))"
  by pat_completeness auto
termination
  by (relation "measure (\<lambda>(view, s). length view)") auto

declare send_partial.simps [simp del]

definition send_data :: "bytes \<Rightarrow> bool \<Rightarrow> unit io" where
  "send_data data partial s = (if \<not> partial then sendall data s else send_partial data s)"

section \<open>The contract of a byte source\<close>

text \<open>
  \<open>pending s d\<close>: the peer still sends \<open>d\<close> and then closes. A read takes a nonempty piece
  off the front, of at most the size asked for, until there is nothing left; it leaves the rest
  of the state (\<open>kept\<close>) alone.
\<close>

locale byte_source =
  fixes get :: "nat \<Rightarrow> 's \<Rightarrow> bytes res \<times> 's"
    and pending :: "'s \<Rightarrow> bytes \<Rightarrow> bool"
    and kept :: "'s \<Rightarrow> 'k"
  assumes get_data: "pending s d \<Longrightarrow> d \<noteq> [] \<Longrightarrow> 0 < n \<Longrightarrow>
      \<exists>b d' s'. get n s = (Inr b, s') \<and> b \<noteq> [] \<and> length b \<le> n \<and> d = b @ d' \<and> pending s' d'"
    and get_eof: "pending s [] \<Longrightarrow> 0 < n \<Longrightarrow> \<exists>s'. get n s = (Inr [], s') \<and> pending s' []"
    and get_kept: "get n s = (r, s') \<Longrightarrow> kept s' = kept s"
begin

lemma get_piece:
  assumes "pending s d" "d \<noteq> []" "0 < n"
  obtains b d' s' where "get n s = (Inr b, s')" "b \<noteq> []" "length b \<le> n" "d = b @ d'"
    "pending s' d'" "kept s' = kept s"
  using get_data [OF assms] get_kept by blast

lemma recv_exact_data:
  "pending s d \<Longrightarrow> len - length data \<le> length d \<Longrightarrow> length data \<le> len \<Longrightarrow>
     \<exists>s'. recv_exact_loop get len data s = (Inr (data @ take (len - length data) d), s')
       \<and> pending s' (drop (len - length data) d) \<and> kept s' = kept s"
proof (induction "len - length data" arbitrary: data d s rule: less_induct)
  case less
  show ?case
  proof (cases "length data < len")
    case False
    with less.prems show ?thesis by (simp add: recv_exact_loop.simps)
  next
    case True
    with less.prems have "d \<noteq> []" "0 < len - length data" by auto
    with less.prems(1) obtain b d' s1 where b: "get (len - length data) s = (Inr b, s1)" "b \<noteq> []"
        "length b \<le> len - length data" "d = b @ d'" "pending s1 d'" "kept s1 = kept s"
      by (rule get_piece)
    have "len - length (data @ b) < len - length data" using True b(2) by (simp add: diff_less_mono2)
    moreover have "len - length (data @ b) \<le> length d'" "length (data @ b) \<le> len"
      using less.prems(2) True b(3,4) by auto
    ultimately obtain s' where "recv_exact_loop get len (data @ b) s1 =
        (Inr ((data @ b) @ take (len - length (data @ b)) d'), s')"
        "pending s' (drop (len - length (data @ b)) d')" "kept s' = kept s1"
      using less.hyps b(5) by blast
    moreover have "recv_exact_loop get len data s = recv_exact_loop get len (data @ b) s1"
      using True b(1,2) by (subst recv_exact_loop.simps) simp
    ultimately show ?thesis using b(3,4,6) by (auto simp: diff_diff_left)
  qed
qed

lemma recv_exact_eof:
  "pending s d \<Longrightarrow> length d < len - length data \<Longrightarrow>
     \<exists>s'. recv_exact_loop get len data s = (Inl EOFError, s') \<and> pending s' [] \<and> kept s' = kept s"
proof (induction "len - length data" arbitrary: data d s rule: less_induct)
  case less
  then have len: "length data < len" "0 < len - length data" by auto
  show ?case
  proof (cases "d = []")
    case True
    with less.prems(1) len(2) obtain s' where "get (len - length data) s = (Inr [], s')" "pending s' []"
      using get_eof by blast
    with len(1) get_kept show ?thesis by (subst recv_exact_loop.simps) simp
  next
    case False
    from less.prems(1) False len(2) obtain b d' s1 where
        b: "get (len - length data) s = (Inr b, s1)" "b \<noteq> []"
        "length b \<le> len - length data" "d = b @ d'" "pending s1 d'" "kept s1 = kept s"
      by (rule get_piece)
    have "len - length (data @ b) < len - length data" using len b(2) by (simp add: diff_less_mono2)
    moreover have "length d' < len - length (data @ b)" using less.prems(2) b(4) by auto
    ultimately obtain s' where "recv_exact_loop get len (data @ b) s1 = (Inl EOFError, s')"
        "pending s' []" "kept s' = kept s1"
      using less.hyps b(5) by blast
    moreover have "recv_exact_loop get len data s = recv_exact_loop get len (data @ b) s1"
      using len b(1,2) by (subst recv_exact_loop.simps) simp
    ultimately show ?thesis using b(6) by auto
  qed
qed

lemma recv_headers_stream:
  assumes "pending s d" "find_sub crlf2 data = None" "length data \<le> limit + 1"
  shows "\<exists>s'. kept s' = kept s \<and>
    (case find_sub crlf2 (take (limit + 1) (data @ d)) of
       Some k \<Rightarrow> \<exists>extra d'. recv_headers_loop get limit data s =
           (Inr (take (k + 4) (data @ d), extra), s')
           \<and> drop (k + 4) (data @ d) = extra @ d' \<and> pending s' d'
     | None \<Rightarrow> recv_headers_loop get limit data s =
           (Inl (if length (data @ d) \<le> limit then EOFError else ValueError ''headers too large''), s'))"
  using assms
proof (induction "limit + 1 - length data" arbitrary: data d s rule: less_induct)
  case less
  show ?case
  proof (cases "length data \<le> limit")
    case False
    with less.prems(3) have "take (limit + 1) (data @ d) = data" by simp
    with False less.prems(2) show ?thesis by (simp add: recv_headers_loop.simps [of get limit data])
  next
    case len: True
    let ?n = "min 4096 (limit + 1 - length data)"
    have n: "0 < ?n" using len by simp
    show ?thesis
    proof (cases "d = []")
      case True
      with less.prems(1) n obtain s' where "get ?n s = (Inr [], s')" using get_eof by blast
      with True len less.prems(2) get_kept show ?thesis
        by (simp add: recv_headers_loop.simps [of get limit data])
    next
      case False
      from less.prems(1) False n obtain b d' s1 where b: "get ?n s = (Inr b, s1)" "b \<noteq> []"
          "length b \<le> ?n" "d = b @ d'" "pending s1 d'" "kept s1 = kept s"
        by (rule get_piece)
      have fit: "length (data @ b) \<le> limit + 1"
        using b(3) len unfolding length_append min.bounded_iff by linarith
      show ?thesis
      proof (cases "find_sub crlf2 (data @ b)")
        case None
        have "limit + 1 - length (data @ b) < limit + 1 - length data"
          using b(2) len by (simp add: diff_less_mono2)
        note IH = less.hyps [OF this b(5) None fit]
        have D: "(data @ b) @ d' = data @ d" using b(4) by simp
        from IH [unfolded D] obtain s' where s': "kept s' = kept s1"
          "case find_sub crlf2 (take (limit + 1) (data @ d)) of
             Some k \<Rightarrow> \<exists>extra d'. recv_headers_loop get limit (data @ b) s1 =
                 (Inr (take (k + 4) (data @ d), extra), s')
                 \<and> drop (k + 4) (data @ d) = extra @ d' \<and> pending s' d'
           | None \<Rightarrow> recv_headers_loop get limit (data @ b) s1 =
                 (Inl (if length (data @ d) \<le> limit then EOFError
                       else ValueError ''headers too large''), s')"
          by blast
        have eq: "recv_headers_loop get limit data s = recv_headers_loop get limit (data @ b) s1"
          using len b(1,2) None by (simp add: recv_headers_loop.simps [of get limit data])
        show ?thesis
          unfolding eq
          by (intro exI [of _ s'] conjI) (simp only: s'(1) b(6), rule s'(2))
      next
        case (Some k)
        have d: "data @ d = (data @ b) @ d'" using b(4) by simp
        have pre: "take (limit + 1) (data @ d) = (data @ b) @ take (limit + 1 - length (data @ b)) d'"
          unfolding d take_append [of "limit + 1" "data @ b"] using fit by (simp only: take_all)
        have "find_sub crlf2 (take (limit + 1) (data @ d)) = Some k"
          unfolding pre by (rule find_sub_append [OF Some])
        moreover have "k + 4 \<le> length (data @ b)"
          using find_sub_Some_length [OF Some] by (simp add: crlf2_def)
        moreover have "recv_headers_loop get limit data s =
            (Inr (take (k + 4) (data @ b), drop (k + 4) (data @ b)), s1)"
          using len b(1,2) Some by (simp add: recv_headers_loop.simps [of get limit data])
        ultimately show ?thesis using b(5,6) unfolding d by auto
      qed
    qed
  qed
qed

end

section \<open>The socket is a byte source\<close>

definition peer_sends :: "sock \<Rightarrow> bytes \<Rightarrow> bool" where
  "peer_sends s d \<longleftrightarrow> (\<exists>cs. rx s = map Chunk cs \<and> concat cs = d)"

definition out_side :: "sock \<Rightarrow> bytes \<times> tx_event list \<times> nat" where
  "out_side s = (tx s, accepts s, timeout s)"

lemma rx_read_chunks:
  "0 < n \<Longrightarrow> \<exists>b cs'. rx_read n (map Chunk cs) = (Inr b, map Chunk cs')
     \<and> concat cs = b @ concat cs' \<and> length b \<le> n \<and> (b = [] \<longrightarrow> concat cs = [])"
proof (induction cs)
  case Nil
  show ?case by (rule exI [of _ "[]"], rule exI [of _ "[]"]) simp
next
  case (Cons c cs)
  show ?case
  proof (cases "c = []")
    case True
    with Cons show ?thesis by simp
  next
    case c: False
    show ?thesis
    proof (cases "length c \<le> n")
      case True
      with c show ?thesis by (intro exI [of _ c] exI [of _ cs]) simp
    next
      case False
      with c Cons.prems show ?thesis
        by (intro exI [of _ "take n c"] exI [of _ "drop n c # cs"]) simp
    qed
  qed
qed

lemma recv_peer:
  assumes "peer_sends s d" "0 < n"
  shows "\<exists>b d' s'. recv n s = (Inr b, s') \<and> d = b @ d' \<and> length b \<le> n \<and> peer_sends s' d'
    \<and> (b = [] \<longrightarrow> d = [])"
proof -
  from assms(1) obtain cs where cs: "rx s = map Chunk cs" "concat cs = d"
    by (auto simp: peer_sends_def)
  from rx_read_chunks [OF assms(2), of cs] obtain b cs' where
    r: "rx_read n (map Chunk cs) = (Inr b, map Chunk cs')" "concat cs = b @ concat cs'"
      "length b \<le> n" "b = [] \<longrightarrow> concat cs = []" by blast
  have "recv n s = (Inr b, s\<lparr>rx := map Chunk cs'\<rparr>)"
    "peer_sends (s\<lparr>rx := map Chunk cs'\<rparr>) (concat cs')"
    using cs(1) r(1) by (auto simp: recv_def peer_sends_def)
  with r cs(2) show ?thesis by blast
qed

interpretation peer: byte_source recv peer_sends out_side
proof
  show "peer_sends s d \<Longrightarrow> d \<noteq> [] \<Longrightarrow> 0 < n \<Longrightarrow>
      \<exists>b d' s'. recv n s = (Inr b, s') \<and> b \<noteq> [] \<and> length b \<le> n \<and> d = b @ d' \<and> peer_sends s' d'"
    for s d n using recv_peer by blast
  show "peer_sends s [] \<Longrightarrow> 0 < n \<Longrightarrow> \<exists>s'. recv n s = (Inr [], s') \<and> peer_sends s' []" for s n
    using recv_peer [of s "[]" n] by auto
  show "recv n s = (r, s') \<Longrightarrow> out_side s' = out_side s" for n s r s'
    by (auto simp: recv_def out_side_def split: prod.splits)
qed

section \<open>Reading consumes\<close>

text \<open>The bytes still to come, whatever else happens on the way.\<close>

fun rx_bytes :: "rx_event list \<Rightarrow> bytes" where
  "rx_bytes [] = []"
| "rx_bytes (Chunk d # es) = d @ rx_bytes es"
| "rx_bytes (RxTimeout # es) = rx_bytes es"
| "rx_bytes (RxReset # es) = rx_bytes es"

lemma rx_read_bytes: "rx_read n es = (Inr b, es') \<Longrightarrow> rx_bytes es = b @ rx_bytes es'"
  by (induction n es rule: rx_read.induct) (auto split: if_splits)

lemma rx_read_length: "rx_read n es = (Inr b, es') \<Longrightarrow> 0 < n \<Longrightarrow> length b \<le> n"
  by (induction n es rule: rx_read.induct) (auto split: if_splits)

lemma recv_bytes: "recv n s = (Inr b, s') \<Longrightarrow> rx_bytes (rx s) = b @ rx_bytes (rx s')"
  by (auto simp: recv_def rx_read_bytes split: prod.splits)

lemma recv_exact_loop_bytes:
  "recv_exact_loop recv len data s = (Inr d, s') \<Longrightarrow> length data \<le> len \<Longrightarrow>
     data @ rx_bytes (rx s) = d @ rx_bytes (rx s') \<and> len \<le> length d"
proof (induction "len - length data" arbitrary: data s rule: less_induct)
  case less
  show ?case
  proof (cases "length data < len")
    case False
    with less.prems show ?thesis by (simp add: recv_exact_loop.simps)
  next
    case True
    with less.prems(1) obtain b s1 where b: "recv (len - length data) s = (Inr b, s1)" "b \<noteq> []"
      "recv_exact_loop recv len (data @ b) s1 = (Inr d, s')"
      by (subst (asm) recv_exact_loop.simps) (auto split: prod.splits sum.splits if_splits)
    have "length b \<le> len - length data"
      using b(1) True by (auto simp: recv_def split: prod.splits dest!: rx_read_length)
    with True b(2) less.hyps [OF _ b(3)] recv_bytes [OF b(1)] show ?thesis
      by (auto simp: diff_less_mono2)
  qed
qed

lemma recv_exact_bytes:
  "recv_exact n s = (Inr d, s') \<Longrightarrow> rx_bytes (rx s) = d @ rx_bytes (rx s') \<and> n \<le> length d"
  using recv_exact_loop_bytes [of n "[]" s d s'] by (simp add: recv_exact_def)

section \<open>What a send leaves on the wire\<close>

text \<open>A peer that takes something of every send.\<close>

fun taking :: "tx_event \<Rightarrow> bool" where
  "taking (Accept k) = (0 < k)"
| "taking TxFail = False"
| "taking TxTimeout = False"

definition takes_all :: "sock \<Rightarrow> bool" where
  "takes_all s \<longleftrightarrow> list_all taking (accepts s)"

text \<open>
  \<open>sent_part s data r s'\<close>: \<open>s'\<close> has a prefix of \<open>data\<close> behind the output of \<open>s\<close>, all of it
  when \<open>r\<close> is a normal return, and nothing was read.
\<close>

definition sent_part :: "sock \<Rightarrow> bytes \<Rightarrow> unit res \<Rightarrow> sock \<Rightarrow> bool" where
  "sent_part s data r s' \<longleftrightarrow>
     (\<exists>out rest. data = out @ rest \<and> tx s' = tx s @ out \<and> (r = Inr () \<longrightarrow> rest = []))
     \<and> rx s' = rx s \<and> timeout s' = timeout s \<and> (takes_all s \<longrightarrow> r = Inr () \<and> takes_all s')"

lemma tx_all_out:
  "tx_all as data = (r, out, as') \<Longrightarrow>
     \<exists>rest. data = out @ rest \<and> (r = Inr () \<longrightarrow> rest = [])"
proof (induction as data arbitrary: r out as' rule: tx_all.induct)
  case (3 k as v va)
  then obtain out' where o: "tx_all as (drop k (v # va)) = (r, out', as')"
    "out = take k (v # va) @ out'"
    by (auto split: prod.splits)
  from "3.IH" [OF o(1)] obtain rest where "drop k (v # va) = out' @ rest"
    "r = Inr () \<longrightarrow> rest = []" by blast
  moreover have "v # va = take k (v # va) @ drop k (v # va)"
    by (simp only: append_take_drop_id)
  ultimately show ?case using o(2) by (metis append.assoc)
qed auto

lemma tx_all_takes:
  "list_all taking as \<Longrightarrow>
     \<exists>out as'. tx_all as data = (Inr (), out, as')
       \<and> list_all taking as'"
  by (induction as data rule: tx_all.induct) (fastforce split: prod.splits)+

lemma sendall_sent: "sendall data s = (r, s') \<Longrightarrow> sent_part s data r s'"
  using tx_all_takes [of "accepts s" data]
  by (auto simp: sendall_def sent_part_def takes_all_def dest!: tx_all_out split: prod.splits)

lemma sock_send_cases:
  assumes "sock_send data s = (r, s')"
  shows "rx s' = rx s \<and> timeout s' = timeout s \<and> (takes_all s \<longrightarrow> res_ok r \<and> takes_all s')
    \<and> (case r of Inl e \<Rightarrow> tx s' = tx s
       | Inr n \<Rightarrow> n \<le> length data \<and> tx s' = tx s @ take n data
                  \<and> (takes_all s \<longrightarrow> data \<noteq> [] \<longrightarrow> 0 < n))"
  using assms
  by (auto simp: sock_send_def takes_all_def min_def split: list.splits tx_event.splits)

lemma send_partial_sent: "send_partial view s = (r, s') \<Longrightarrow> sent_part s view r s'"
proof (induction "length view" arbitrary: view s rule: less_induct)
  case less
  show ?case
  proof (cases "view = []")
    case True
    with less.prems show ?thesis by (auto simp: send_partial.simps [of "[]"] sent_part_def)
  next
    case view: False
    obtain q s1 where q: "sock_send (take 3 view) s = (q, s1)" by fastforce
    note c = sock_send_cases [OF q]
    show ?thesis
    proof (cases q)
      case (Inl e)
      with less.prems q view have rs: "r = Inl e" "s' = s1"
        by (simp_all add: send_partial.simps [of view])
      have "\<not> takes_all s" using c Inl by auto
      moreover have "view = [] @ view \<and> tx s' = tx s @ []" using c Inl rs by simp
      ultimately show ?thesis unfolding sent_part_def using c rs by blast
    next
      case (Inr n)
      show ?thesis
      proof (cases "n = 0")
        case True
        with Inr less.prems q view have rs: "r = Inl (ConnectionError ''short socket write'')" "s' = s1"
          by (simp_all add: send_partial.simps [of view])
        have "\<not> takes_all s" using c Inr True view by auto
        moreover have "view = [] @ view \<and> tx s' = tx s @ []" using c Inr rs True by simp
        ultimately show ?thesis unfolding sent_part_def using c rs by blast
      next
        case False
        with Inr less.prems q view have "send_partial (drop n view) s1 = (r, s')"
          by (simp add: send_partial.simps [of view])
        moreover have "length (drop n view) < length view" using view False by simp
        ultimately have rec: "sent_part s1 (drop n view) r s'" using less.hyps by blast
        have "n \<le> 3" using c Inr by simp
        then have "take n (take 3 view) = take n view" by (simp add: min_absorb1)
        with c Inr have t: "tx s1 = tx s @ take n view" by simp
        from rec obtain out rest where "drop n view = out @ rest" "tx s' = tx s1 @ out"
            "r = Inr () \<longrightarrow> rest = []" by (auto simp: sent_part_def)
        with t have "view = (take n view @ out) @ rest \<and> tx s' = tx s @ (take n view @ out)"
          by (metis append.assoc append_take_drop_id)
        with rec c \<open>r = Inr () \<longrightarrow> rest = []\<close> show ?thesis unfolding sent_part_def by auto
      qed
    qed
  qed
qed

lemma send_data_sent: "send_data data partial s = (r, s') \<Longrightarrow> sent_part s data r s'"
  by (auto simp: send_data_def intro: sendall_sent send_partial_sent split: if_splits)

lemma send_data_takes:
  assumes "takes_all s"
  obtains s' where "send_data data partial s = (Inr (), s')" "tx s' = tx s @ data" "rx s' = rx s"
    "takes_all s'" "timeout s' = timeout s"
proof -
  obtain r s' where r: "send_data data partial s = (r, s')" by fastforce
  from send_data_sent [OF r] assms have "r = Inr ()" "tx s' = tx s @ data" "rx s' = rx s" "takes_all s'"
      "timeout s' = timeout s"
    by (auto simp: sent_part_def)
  with r that show ?thesis by blast
qed

section \<open>The helpers on a peer's stream\<close>

lemma recv_headers_peer:
  assumes "peer_sends s d"
  shows "\<exists>s'. out_side s' = out_side s \<and>
    (case find_sub crlf2 (take (MAX_HEADERS + 1) d) of
       Some k \<Rightarrow> \<exists>extra d'. recv_headers s = (Inr (take (k + 4) d, extra), s')
           \<and> drop (k + 4) d = extra @ d' \<and> peer_sends s' d'
     | None \<Rightarrow> recv_headers s =
           (Inl (if length d \<le> MAX_HEADERS then EOFError else ValueError ''headers too large''), s'))"
  using peer.recv_headers_stream [OF assms, of "[]" MAX_HEADERS]
  unfolding append_Nil recv_headers_def by (simp add: crlf2_def)

lemma recv_exact_peer:
  assumes "peer_sends s d" "n \<le> length d"
  obtains s' where "recv_exact n s = (Inr (take n d), s')" "peer_sends s' (drop n d)"
    "out_side s' = out_side s"
  using peer.recv_exact_data [OF assms(1), of n "[]"] assms(2) by (auto simp: recv_exact_def)

lemma recv_exact_short:
  assumes "peer_sends s d" "length d < n"
  obtains s' where "recv_exact n s = (Inl EOFError, s')" "peer_sends s' []"
    "out_side s' = out_side s"
  using peer.recv_exact_eof [OF assms(1), of n "[]"] assms(2) by (auto simp: recv_exact_def)

text \<open>C14: however the network cuts the bytes \<open>d\<close> a peer sends, \<open>_recv_headers\<close> returns
  the header block up to and including the first blank line, and what it read beyond it is
  neither lost nor reordered: it and what is still to come are the rest of \<open>d\<close>. Without a
  blank line within 64 KiB it raises, as a short stream or as too large a header, and nothing
  is written in any case.\<close>

theorem recv_headers_split:
  assumes "peer_sends s d"
  shows "\<exists>s'. out_side s' = out_side s \<and>
    (case find_sub crlf2 (take 65537 d) of
       Some k \<Rightarrow> \<exists>extra d'. recv_headers s = (Inr (take (k + 4) d, extra), s')
           \<and> drop (k + 4) d = extra @ d' \<and> peer_sends s' d'
     | None \<Rightarrow> recv_headers s =
           (Inl (if length d \<le> 65536 then EOFError else ValueError ''headers too large''), s'))"
proof -
  have m: "MAX_HEADERS = 65536" and n: "(65536::nat) + 1 = 65537"
    by (simp_all add: MAX_HEADERS_def)
  from recv_headers_peer [OF assms, unfolded m n] show ?thesis .
qed

definition cut_request :: sock where
  "cut_request = \<lparr>rx = [Chunk (''GET'' @ take 1 crlf2), Chunk (drop 1 crlf2 @ ''body'')],
                  tx = [], accepts = [], timeout = 5000\<rparr>"

lemma recv_headers_split_witness:
  "\<exists>s' extra d'. recv_headers cut_request = (Inr (''GET'' @ crlf2, extra), s')
     \<and> ''body'' = extra @ d' \<and> peer_sends s' d'"
proof -
  have p: "peer_sends cut_request (''GET'' @ crlf2 @ ''body'')"
    by (simp add: peer_sends_def cut_request_def crlf2_def)
      (rule exI [of _ "[''GET'' @ take 1 crlf2, drop 1 crlf2 @ ''body'']"], simp add: crlf2_def)
  have "find_sub crlf2 (take 65537 (''GET'' @ crlf2 @ ''body'')) = Some 3"
    by (simp add: crlf2_def)
  with recv_headers_split [OF p] show ?thesis by (auto simp: crlf2_def)
qed

text \<open>C15: \<open>_send\<close> writes a prefix of the data in order and nothing else, all of it when it
  returns, in one \<open>sendall\<close> or in writes of three bytes; it reads nothing. When the peer takes
  at least a byte of every write, it does return.\<close>

theorem send_data_writes:
  assumes "send_data data partial s = (r, s')"
  shows "(\<exists>out rest. data = out @ rest \<and> tx s' = tx s @ out \<and> (r = Inr () \<longrightarrow> rest = []))
     \<and> rx s' = rx s \<and> (takes_all s \<longrightarrow> r = Inr ())"
  using send_data_sent [OF assms] by (simp add: sent_part_def)

lemma send_data_writes_witness:
  "\<exists>s'. send_data ''hello'' True (cut_request\<lparr>accepts := [Accept 2, Accept 1]\<rparr>) = (Inr (), s')
     \<and> tx s' = ''hello''"
proof -
  let ?s = "cut_request\<lparr>accepts := [Accept 2, Accept 1]\<rparr>"
  obtain r s' where r: "send_data ''hello'' True ?s = (r, s')" by fastforce
  have "takes_all ?s" by (simp add: takes_all_def)
  with send_data_writes [OF r] r show ?thesis by (auto simp: cut_request_def)
qed

end
