(* ===== verification/Text.thy ===== *)
theory Text
  imports Prelude
begin

text \<open>
  What the responder uses of Python's text: Latin-1 decoding, \<open>strip\<close>, \<open>lower\<close>,
  \<open>split\<close>, \<open>replace\<close>, \<open>int\<close> of a byte string, percent decoding and \<open>urlsplit\<close> with
  \<open>parse_qs\<close>. A \<open>str\<close> is a list of code points, so text decoded as Latin-1 and text that
  percent decoding takes outside Latin-1 are both values of the model.

  Two tables of the interpreter are parameters (the record \<open>unicode\<close>): the lower-case
  mapping of code points above U+00FF, each with the text before and behind it, and
  \<open>urlsplit\<close>'s verdict on a host that is bracketed or not ASCII. Everything below U+0100 is written out.
\<close>

record unicode =
  wide_lower :: "pystr \<Rightarrow> nat \<Rightarrow> pystr \<Rightarrow> pystr"
  host_ok :: "pystr \<Rightarrow> bool"

text \<open>Concrete tables for examples.\<close>

definition plain_unicode :: unicode where
  "plain_unicode = \<lparr>wide_lower = (\<lambda>_ c _. [c]), host_ok = (\<lambda>_. True)\<rparr>"

section \<open>str and bytes methods\<close>

text \<open>\<open>bytes.decode("latin-1")\<close>; on an ASCII literal it is the literal as a \<open>str\<close>.\<close>

definition latin1 :: "bytes \<Rightarrow> pystr" where
  "latin1 d = map byte_val d"

definition bytes_space :: "char \<Rightarrow> bool" where
  "bytes_space c \<longleftrightarrow> byte_val c \<in> {9, 10, 11, 12, 13, 32}"

definition str_space :: "nat \<Rightarrow> bool" where
  "str_space c \<longleftrightarrow> 9 \<le> c \<and> c \<le> 13 \<or> 28 \<le> c \<and> c \<le> 32 \<or> c = 133 \<or> c = 160 \<or> c = 5760
     \<or> 8192 \<le> c \<and> c \<le> 8202 \<or> c \<in> {8232, 8233, 8239, 8287, 12288}"

definition rstrip_by :: "('a \<Rightarrow> bool) \<Rightarrow> 'a list \<Rightarrow> 'a list" where
  "rstrip_by p s = rev (dropWhile p (rev s))"

definition strip_by :: "('a \<Rightarrow> bool) \<Rightarrow> 'a list \<Rightarrow> 'a list" where
  "strip_by p s = rstrip_by p (dropWhile p s)"

definition bytes_strip :: "bytes \<Rightarrow> bytes" where "bytes_strip = strip_by bytes_space"
definition str_strip :: "pystr \<Rightarrow> pystr" where "str_strip = strip_by str_space"

text \<open>\<open>lower\<close>; the lower case of a wide character may depend on what stands around it, as that
  of the capital sigma does.\<close>

definition lower_char :: "unicode \<Rightarrow> pystr \<Rightarrow> nat \<Rightarrow> pystr \<Rightarrow> pystr" where
  "lower_char u bef c aft =
     (if 65 \<le> c \<and> c \<le> 90 \<or> 192 \<le> c \<and> c \<le> 222 \<and> c \<noteq> 215 then [c + 32]
      else if c < 256 then [c] else wide_lower u bef c aft)"

fun lower_from :: "unicode \<Rightarrow> pystr \<Rightarrow> pystr \<Rightarrow> pystr" where
  "lower_from u bef [] = []"
| "lower_from u bef (c # cs) = lower_char u bef c cs @ lower_from u (bef @ [c]) cs"

definition str_lower :: "unicode \<Rightarrow> pystr \<Rightarrow> pystr" where
  "str_lower u s = lower_from u [] s"

definition replace1 :: "nat \<Rightarrow> nat \<Rightarrow> pystr \<Rightarrow> pystr" where
  "replace1 a b s = map (\<lambda>c. if c = a then b else c) s"

text \<open>\<open>split(c)\<close> at every, and \<open>split(c, 1)\<close> at the first, occurrence.\<close>

fun split_on :: "'a \<Rightarrow> 'a list \<Rightarrow> 'a list list" where
  "split_on c [] = [[]]"
| "split_on c (x # xs) =
     (if x = c then [] # split_on c xs
      else (case split_on c xs of [] \<Rightarrow> [[x]] | l # ls \<Rightarrow> (x # l) # ls))"

definition cut :: "'a \<Rightarrow> 'a list \<Rightarrow> 'a list \<times> 'a list option" where
  "cut c s = (takeWhile (\<lambda>x. x \<noteq> c) s,
              case dropWhile (\<lambda>x. x \<noteq> c) s of [] \<Rightarrow> None | _ # r \<Rightarrow> Some r)"

function split_sub :: "'a list \<Rightarrow> 'a list \<Rightarrow> 'a list list" where
  "split_sub sep d =
     (case find_sub sep d of
        None \<Rightarrow> [d]
      | Some k \<Rightarrow> if sep = [] then [d] else take k d # split_sub sep (drop (k + length sep) d))"
  by pat_completeness auto
termination
proof (relation "measure (\<lambda>(sep, d). length d)")
  show "find_sub sep d = Some k \<Longrightarrow> sep \<noteq> [] \<Longrightarrow>
      ((sep, drop (k + length sep) d), sep, d) \<in> measure (\<lambda>(sep, d). length d)" for sep d :: "'a list" and k
    using find_sub_Some_length [of sep d k] by (cases sep) auto
qed simp

declare split_sub.simps [simp del]

text \<open>
  Lines joined by CRLF: a block of them ends at the first blank line, and splitting it gives
  the lines back.
\<close>

fun join_lines :: "bytes list \<Rightarrow> bytes" where
  "join_lines [] = []"
| "join_lines [l] = l"
| "join_lines (l # m # ls) = l @ crlf @ join_lines (m # ls)"

definition line_ok :: "bytes \<Rightarrow> bool" where
  "line_ok l \<longleftrightarrow> l \<noteq> [] \<and> CHR 0x0D \<notin> set l"

lemma crlf_lines_join: "ls \<noteq> [] \<Longrightarrow> crlf_lines ls @ crlf @ rest = join_lines ls @ crlf2 @ rest"
  by (induction ls rule: join_lines.induct) (auto simp: crlf_lines_def crlf_def crlf2_def)

lemma find_blank_line:
  "list_all line_ok ls \<Longrightarrow> ls \<noteq> [] \<Longrightarrow>
     find_sub crlf2 (join_lines ls @ crlf2 @ rest) = Some (length (join_lines ls))"
proof (induction ls rule: join_lines.induct)
  case (2 l)
  then have "hd crlf2 \<notin> set l" "crlf2 \<noteq> []" by (auto simp: line_ok_def crlf2_def)
  moreover have "find_sub crlf2 (crlf2 @ rest) = Some 0"
    by (simp add: crlf2_def)
  ultimately show ?case by (simp add: find_sub_skip)
next
  case (3 l m ls)
  let ?d = "join_lines (m # ls) @ crlf2 @ rest"
  have l: "hd crlf2 \<notin> set l" "crlf2 \<noteq> []" using 3 by (auto simp: line_ok_def crlf2_def)
  obtain c d where d: "?d = c # d" "c \<noteq> CHR 0x0D"
    using 3(2) by (cases m; cases ls) (auto simp: line_ok_def)
  have "find_sub crlf2 (crlf @ ?d) = map_option (\<lambda>x. x + 2) (find_sub crlf2 ?d)"
    using d(2) unfolding d(1) by (simp add: crlf_def crlf2_def option.map_comp o_def eval_nat_numeral)
  with 3 have "find_sub crlf2 (crlf @ ?d) = Some (length (join_lines (m # ls)) + 2)" by simp
  with find_sub_skip [OF l(2,1), of "crlf @ ?d"] show ?case
    by (simp add: crlf_def)
qed simp

lemma split_join_lines:
  "list_all line_ok ls \<Longrightarrow> ls \<noteq> [] \<Longrightarrow> split_sub crlf (join_lines ls) = ls"
proof (induction ls rule: join_lines.induct)
  case (2 l)
  then have "hd crlf \<notin> set l" "crlf \<noteq> []" by (auto simp: line_ok_def crlf_def)
  from find_sub_skip [OF this(2,1), of "[]"] show ?case
    by (simp add: split_sub.simps [of crlf l])
next
  case (3 l m ls)
  then have l: "hd crlf \<notin> set l" "crlf \<noteq> []" by (auto simp: line_ok_def crlf_def)
  have "find_sub crlf (crlf @ join_lines (m # ls)) = Some 0"
    by (simp add: crlf_def)
  with find_sub_skip [OF l(2,1), of "crlf @ join_lines (m # ls)"]
  have "find_sub crlf (join_lines (l # m # ls)) = Some (length l)" by simp
  with 3 l(2) show ?case
    by (simp add: split_sub.simps [of crlf "l @ crlf @ join_lines (m # ls)"])
qed simp

section \<open>int of a byte string\<close>

definition is_digit :: "char \<Rightarrow> bool" where
  "is_digit c \<longleftrightarrow> 48 \<le> byte_val c \<and> byte_val c \<le> 57"

text \<open>Digits with single underscores between them.\<close>

fun int_grammar :: "bytes \<Rightarrow> bool" where
  "int_grammar [] = False"
| "int_grammar [c] = is_digit c"
| "int_grammar (c # d # r) =
     (is_digit c \<and> (if d = CHR ''_'' then int_grammar r else int_grammar (d # r)))"

definition digits_value :: "bytes \<Rightarrow> nat" where
  "digits_value ds = foldl (\<lambda>a c. a * 10 + (byte_val c - 48)) 0 ds"

text \<open>\<open>None\<close> is the \<open>ValueError\<close>, also the one for more than 4300 digits.\<close>

definition int_of_bytes :: "bytes \<Rightarrow> int option" where
  "int_of_bytes d =
     (let s = bytes_strip d;
          neg = (s \<noteq> [] \<and> hd s = CHR ''-'');
          body = (if s \<noteq> [] \<and> hd s \<in> {CHR ''-'', CHR ''+''} then tl s else s);
          ds = filter (\<lambda>c. c \<noteq> CHR ''_'') body
      in if int_grammar body \<and> length ds \<le> 4300
         then Some (if neg then - int (digits_value ds) else int (digits_value ds))
         else None)"

section \<open>Percent decoding\<close>

definition hex_digit :: "nat \<Rightarrow> nat option" where
  "hex_digit c =
     (if 48 \<le> c \<and> c \<le> 57 then Some (c - 48)
      else if 65 \<le> c \<and> c \<le> 70 then Some (c - 55)
      else if 97 \<le> c \<and> c \<le> 102 then Some (c - 87) else None)"

fun unquote_to_bytes :: "pystr \<Rightarrow> nat list" where
  "unquote_to_bytes [] = []"
| "unquote_to_bytes [c] = [c]"
| "unquote_to_bytes [c, x] = [c, x]"
| "unquote_to_bytes (c # x # y # r) =
     (case (c = 37, hex_digit x, hex_digit y) of
        (True, Some a, Some b) \<Rightarrow> (16 * a + b) # unquote_to_bytes r
      | _ \<Rightarrow> c # unquote_to_bytes (x # y # r))"

text \<open>
  \<open>decode("utf-8", "replace")\<close>: an ill-formed sequence is replaced by U+FFFD, together with
  the continuation bytes that could still have completed it.
\<close>

definition utf8_need :: "nat \<Rightarrow> nat" where
  "utf8_need b =
     (if 194 \<le> b \<and> b \<le> 223 then 1 else if 224 \<le> b \<and> b \<le> 239 then 2
      else if 240 \<le> b \<and> b \<le> 244 then 3 else 0)"

definition utf8_cont :: "nat \<Rightarrow> bool" where
  "utf8_cont c \<longleftrightarrow> 128 \<le> c \<and> c \<le> 191"

definition utf8_second :: "nat \<Rightarrow> nat \<Rightarrow> bool" where
  "utf8_second b c \<longleftrightarrow> utf8_cont c \<and>
     (if b = 224 then 160 \<le> c else if b = 237 then c \<le> 159
      else if b = 240 then 144 \<le> c else if b = 244 then c \<le> 143 else True)"

definition utf8_tail :: "nat \<Rightarrow> nat list \<Rightarrow> nat" where
  "utf8_tail b r =
     (case r of [] \<Rightarrow> 0
      | c # r' \<Rightarrow> if utf8_need b \<noteq> 0 \<and> utf8_second b c
                  then Suc (length (takeWhile utf8_cont (take (utf8_need b - 1) r'))) else 0)"

function utf8_replace :: "nat list \<Rightarrow> pystr" where
  "utf8_replace [] = []"
| "utf8_replace (b # r) =
     (if b < 128 then b # utf8_replace r
      else if utf8_need b \<noteq> 0 \<and> utf8_tail b r = utf8_need b
      then foldl (\<lambda>a c. a * 64 + c mod 64) (b mod 2 ^ (6 - utf8_need b)) (take (utf8_need b) r)
             # utf8_replace (drop (utf8_need b) r)
      else 65533 # utf8_replace (drop (utf8_tail b r) r))"
  by pat_completeness auto
termination
  by (relation "measure length") auto

text \<open>\<open>unquote\<close> decodes the ASCII runs of its argument and keeps the rest.\<close>

function unquote :: "pystr \<Rightarrow> pystr" where
  "unquote s =
     (case s of
        [] \<Rightarrow> []
      | c # r \<Rightarrow>
          if c < 128
          then utf8_replace (unquote_to_bytes (takeWhile (\<lambda>x. x < 128) s))
                 @ unquote (dropWhile (\<lambda>x. x < 128) r)
          else c # unquote r)"
  by pat_completeness auto
termination
  by (relation "measure length") (auto simp: le_imp_less_Suc length_dropWhile_le)

declare unquote.simps [simp del]

definition unquote_plus :: "pystr \<Rightarrow> pystr" where
  "unquote_plus s = unquote (replace1 43 32 s)"

section \<open>urlsplit and parse_qs\<close>

definition ascii_alpha :: "nat \<Rightarrow> bool" where
  "ascii_alpha c \<longleftrightarrow> 65 \<le> c \<and> c \<le> 90 \<or> 97 \<le> c \<and> c \<le> 122"

definition scheme_char :: "nat \<Rightarrow> bool" where
  "scheme_char c \<longleftrightarrow> ascii_alpha c \<or> 48 \<le> c \<and> c \<le> 57 \<or> c \<in> {43, 45, 46}"

text \<open>
  The path and query components. \<open>None\<close> is the \<open>ValueError\<close> for a malformed host; a host
  of plain ASCII without brackets is never one.
\<close>

definition url_clean :: "pystr \<Rightarrow> pystr" where
  "url_clean url = filter (\<lambda>c. c \<notin> {9, 10, 13}) (dropWhile (\<lambda>c. c \<le> 32) url)"

definition url_no_scheme :: "pystr \<Rightarrow> pystr" where
  "url_no_scheme url =
     (case cut 58 url of
        (s, Some r) \<Rightarrow> if s \<noteq> [] \<and> ascii_alpha (hd s) \<and> list_all scheme_char s then r else url
      | (s, None) \<Rightarrow> url)"

definition url_netloc :: "pystr \<Rightarrow> pystr \<times> pystr" where
  "url_netloc url =
     (if starts_with [47, 47] url
      then (takeWhile (\<lambda>c. c \<notin> {47, 63, 35}) (drop 2 url), dropWhile (\<lambda>c. c \<notin> {47, 63, 35}) (drop 2 url))
      else ([], url))"

definition netloc_valid :: "unicode \<Rightarrow> pystr \<Rightarrow> bool" where
  "netloc_valid u netloc \<longleftrightarrow>
     (91 \<in> set netloc \<longleftrightarrow> 93 \<in> set netloc) \<and>
     (91 \<notin> set netloc \<and> list_all (\<lambda>c. c < 128) netloc \<or> host_ok u netloc)"

definition urlsplit :: "unicode \<Rightarrow> pystr \<Rightarrow> (pystr \<times> pystr) option" where
  "urlsplit u url =
     (let (netloc, url) = url_netloc (url_no_scheme (url_clean url));
          url = fst (cut 35 url);
          (path, query) = (case cut 63 url of (p, Some q) \<Rightarrow> (p, q) | (p, None) \<Rightarrow> (p, []))
      in if netloc_valid u netloc then Some (path, query) else None)"

definition parse_field :: "pystr \<Rightarrow> pystr \<times> pystr" where
  "parse_field f = (case cut 61 f of
     (n, Some v) \<Rightarrow> (unquote_plus n, unquote_plus v) | (n, None) \<Rightarrow> (unquote_plus n, unquote_plus []))"

definition parse_qsl :: "pystr \<Rightarrow> (pystr \<times> pystr) list" where
  "parse_qsl qs =
     (if qs = [] then [] else map parse_field (filter (\<lambda>f. f \<noteq> []) (split_on 38 qs)))"

text \<open>\<open>parse_qs\<close> groups the values of a name; the callers use the first of them.\<close>

definition query_first :: "(pystr \<times> pystr) list \<Rightarrow> pystr \<Rightarrow> pystr option" where
  "query_first pairs key = map_of pairs key"

section \<open>Plain text is left alone\<close>

lemma cut_none: "c \<notin> set s \<Longrightarrow> cut c s = (s, None)"
  by (induction s) (auto simp: cut_def)

lemma cut_some: "c \<notin> set s \<Longrightarrow> cut c (s @ c # r) = (s, Some r)"
  by (induction s) (auto simp: cut_def)

lemma split_on_ne [simp]: "split_on c s \<noteq> []"
  by (induction s) (auto split: list.splits)

lemma split_on_append: "split_on c (a @ c # b) = split_on c a @ split_on c b"
  by (induction a) (auto split: list.splits)

lemma last_split_on: "last (split_on c (a @ c # b)) = last (split_on c b)"
  by (simp add: split_on_append)

lemma split_on_none: "c \<notin> set s \<Longrightarrow> split_on c s = [s]"
  by (induction s) auto

lemma rstrip_by_append: "s \<noteq> [] \<Longrightarrow> \<not> p (last s) \<Longrightarrow> list_all p t \<Longrightarrow> rstrip_by p (s @ t) = s"
proof -
  assume s: "s \<noteq> []" "\<not> p (last s)" and t: "list_all p t"
  have "dropWhile p (rev t @ rev s) = dropWhile p (rev s)"
    using t by (intro dropWhile_append2) (auto simp: list_all_iff)
  also have "\<dots> = rev s"
    using s by (cases "rev s") (auto simp: rev_eq_Cons_iff)
  finally show ?thesis by (simp add: rstrip_by_def)
qed

lemma utf8_replace_ascii: "list_all (\<lambda>c. c < 128) s \<Longrightarrow> utf8_replace s = s"
  by (induction s) auto

lemma unquote_to_bytes_plain: "37 \<notin> set s \<Longrightarrow> unquote_to_bytes s = s"
  by (induction s rule: unquote_to_bytes.induct) (auto split: option.splits bool.splits)

lemma unquote_plain:
  assumes "list_all (\<lambda>c. c < 128) s" "37 \<notin> set s"
  shows "unquote s = s"
proof (cases s)
  case (Cons c r)
  with assms have r: "takeWhile (\<lambda>x. x < 128) r = r" "dropWhile (\<lambda>x. x < 128) r = []" "c < 128"
    by (auto simp: list_all_iff dropWhile_eq_Nil_conv takeWhile_eq_all_conv)
  with Cons assms show ?thesis
    by (subst unquote.simps) (simp add: r unquote.simps [of "[]"] utf8_replace_ascii
        unquote_to_bytes_plain list_all_iff)
qed (simp add: unquote.simps)

lemma unquote_plus_plain:
  assumes "list_all (\<lambda>c. c < 128) s" "37 \<notin> set s" "43 \<notin> set s"
  shows "unquote_plus s = s"
proof -
  have "replace1 43 32 s = s"
    using assms(3) by (auto simp: replace1_def intro: map_idI)
  with assms show ?thesis by (simp add: unquote_plus_def unquote_plain)
qed

text \<open>A path without a scheme, a host, a query or a fragment.\<close>

definition plain_path :: "pystr \<Rightarrow> bool" where
  "plain_path p \<longleftrightarrow> list_all (\<lambda>c. 32 < c \<and> c \<notin> {35, 58, 63}) p \<and> \<not> starts_with [47, 47] p"

lemma plain_path_component:
  assumes "plain_path (p @ [47])" "m \<noteq> []" "hd m \<noteq> 47" "list_all (\<lambda>c. 32 < c \<and> c \<notin> {35, 58, 63}) m"
  shows "plain_path (p @ 47 # m @ replicate k 47)"
proof -
  have "\<not> starts_with [47, 47] (p @ 47 # m @ replicate k 47)"
  proof (cases p)
    case Nil
    with assms(2,3) show ?thesis by (cases m) auto
  next
    case (Cons a q)
    with assms(1) show ?thesis by (cases q) (auto simp: plain_path_def)
  qed
  with assms(1,4) show ?thesis by (simp add: plain_path_def) (simp add: list_all_iff)
qed

lemma urlsplit_query:
  assumes "plain_path p" "list_all (\<lambda>c. 32 < c \<and> c \<notin> {35, 58}) q"  "p \<noteq> []"
  shows "urlsplit u (p @ 63 # q) = Some (p, q)" "urlsplit u p = Some (p, [])"
proof -
  have p: "list_all (\<lambda>c. 32 < c \<and> c \<notin> {35, 58, 63}) p" "\<not> starts_with [47, 47] p"
    using assms by (auto simp: plain_path_def)
  have "url_netloc (url_no_scheme (url_clean s)) = ([], s)" "fst (cut 35 s) = s"
    if s: "list_all (\<lambda>c. 32 < c \<and> c \<notin> {35, 58}) s" "\<not> starts_with [47, 47] s" for s
  proof -
    have "dropWhile (\<lambda>c. c \<le> 32) s = s"
      using s(1) by (cases s) auto
    moreover have "filter (\<lambda>c. c \<notin> {9, 10, 13}) s = s"
      using s(1) by (intro filter_True) (auto simp: list_all_iff)
    ultimately have c: "url_clean s = s" unfolding url_clean_def by (simp only:)
    have "58 \<notin> set s" "35 \<notin> set s" using s(1) by (auto simp: list_all_iff)
    then show "url_netloc (url_no_scheme (url_clean s)) = ([], s)" "fst (cut 35 s) = s"
      using s(2) by (simp_all add: c url_no_scheme_def cut_none url_netloc_def)
  qed note n = this
  have "\<not> starts_with [47, 47] (p @ 63 # q)"
    using p(2) assms(3) by (cases p; cases "tl p") auto
  moreover have "list_all (\<lambda>c. 32 < c \<and> c \<notin> {35, 58}) (p @ 63 # q)"
    "list_all (\<lambda>c. 32 < c \<and> c \<notin> {35, 58}) p" "63 \<notin> set p"
    using p(1) assms(2) by (auto simp: list_all_iff)
  ultimately show "urlsplit u (p @ 63 # q) = Some (p, q)" "urlsplit u p = Some (p, [])"
    using p(2) n [of p] n [of "p @ 63 # q"]
    by (simp_all add: urlsplit_def netloc_valid_def cut_some cut_none)
qed

end
