(* ===== verification/Modes.thy ===== *)
theory Modes
  imports Text "HOL-Library.AList"
begin

text \<open>
  The response modes of backend-responder.py: how \<open>select_mode\<close> picks one from an untrusted
  request, and the bytes and flags \<open>response_plan\<close> answers with. A header mapping is an
  association list in insertion order, as a \<open>dict\<close> is.

  The promise of each mode is specified by \<open>read_response\<close>, a reader of HTTP and CGI
  responses: the well-formed modes are complete for it, the others are truncated or malformed
  in the way their name says.
\<close>

section \<open>Mode names and their selection\<close>

text \<open>A value that may be bytes or text, and the Latin-1 view of it.\<close>

datatype pyval = Bytes bytes | Str pystr

fun to_str :: "pyval \<Rightarrow> pystr" where
  "to_str (Bytes d) = latin1 d"
| "to_str (Str s) = s"

type_synonym headers = "(pystr \<times> bytes) list"

definition MODE_PATH_PREFIX :: pystr where
  "MODE_PATH_PREFIX = latin1 ''/__backend__/''"

definition MODE_PATH_PREFIXES :: "pystr list" where
  "MODE_PATH_PREFIXES =
     MODE_PATH_PREFIX # map latin1 [''/backend/'', ''/fcgi/'', ''/fastcgi/'', ''/scgi/'',
       ''/h2-proxy/'', ''/h2-fastcgi/'', ''/h2-scgi/'']"

definition MODE_NAMES :: "pystr list" where
  "MODE_NAMES = map latin1
     [''normal'', ''chunked-trailers'', ''100'', ''103'', ''interim'', ''early-close'',
      ''malformed-headers'', ''truncated-headers'', ''malformed-chunk'', ''truncated-chunk'',
      ''redirect-cookie'', ''upgrade'', ''partial'']"

definition MODE_ALIASES :: "(pystr \<times> pystr) list" where
  "MODE_ALIASES = map (\<lambda>(a, m). (latin1 a, latin1 m))
     [(''100-103'', ''interim''), (''content-length-mismatch'', ''early-close''),
      (''length-mismatch'', ''early-close''), (''set-cookie-location'', ''redirect-cookie''),
      (''short-writes'', ''partial'')]"

definition MAX_REQUEST :: nat where "MAX_REQUEST = 1024 * 1024"

definition mode_value :: "unicode \<Rightarrow> pyval \<Rightarrow> pystr" where
  "mode_value u v =
     (let value = take 64 (replace1 95 45 (str_lower u (str_strip (to_str v))))
      in case map_of MODE_ALIASES value of Some m \<Rightarrow> m | None \<Rightarrow> value)"

definition canonical_mode :: "unicode \<Rightarrow> pyval \<Rightarrow> pystr" where
  "canonical_mode u v =
     (let value = mode_value u v in if value \<in> set MODE_NAMES then value else latin1 ''normal'')"

text \<open>The final component of a path, \<open>path.rstrip("/").rsplit("/", 1)[-1]\<close>, decides.\<close>

definition path_mode :: "unicode \<Rightarrow> pystr \<Rightarrow> pystr" where
  "path_mode u path =
     (let final_component = last (split_on 47 (rstrip_by (\<lambda>c. c = 47) path));
          candidate = mode_value u (Str final_component)
      in if candidate \<in> set MODE_NAMES then candidate else latin1 ''normal'')"

definition select_mode :: "unicode \<Rightarrow> pyval \<Rightarrow> headers \<Rightarrow> pystr" where
  "select_mode u uri headers =
     (case map_of headers (latin1 ''x-backend-mode'') of
        Some header_mode \<Rightarrow> canonical_mode u (Bytes header_mode)
      | None \<Rightarrow>
          (case urlsplit u (to_str uri) of
             None \<Rightarrow> path_mode u (fst (cut 63 (to_str uri)))
           | Some (path, query) \<Rightarrow>
               let pairs = parse_qsl query in
               (case query_first pairs (latin1 ''backend-mode'') of
                  Some v \<Rightarrow> canonical_mode u (Str v)
                | None \<Rightarrow>
                    (case query_first pairs (latin1 ''mode'') of
                       Some v \<Rightarrow> canonical_mode u (Str v)
                     | None \<Rightarrow> path_mode u path))))"

section \<open>response_plan\<close>

definition header_bytes :: "string \<Rightarrow> (string \<times> string) list \<Rightarrow> bool \<Rightarrow> bytes" where
  "header_bytes status pairs http =
     (if http then ''HTTP/1.1 '' else ''Status: '') @ status @ crlf
       @ concat (map (\<lambda>(key, value). key @ '': '' @ value @ crlf) pairs) @ crlf"

text \<open>The bytes to send, and the flags \<open>partial\<close>, \<open>close_early\<close> and \<open>upgrade\<close>.\<close>

record plan =
  plan_wire :: bytes
  plan_partial :: bool
  plan_close_early :: bool
  plan_upgrade :: bool

definition plan_of :: "bytes \<Rightarrow> bool \<Rightarrow> bool \<Rightarrow> bool \<Rightarrow> plan res" where
  "plan_of d p c u = Inr \<lparr>plan_wire = d, plan_partial = p, plan_close_early = c, plan_upgrade = u\<rparr>"

definition backend_body :: bytes where "backend_body = ''backend-ok'' @ [CHR 0x0A]"

definition normal_response :: "bool \<Rightarrow> bytes" where
  "normal_response http =
     header_bytes ''200 OK''
       [(''Content-Type'', ''text/plain''), (''Content-Length'', show_nat (length backend_body)),
        (''Connection'', ''close'')] http @ backend_body"

definition status_line :: "bool \<Rightarrow> bytes" where
  "status_line http = (if http then ''HTTP/1.1 200 OK'' else ''Status: 200 OK'') @ crlf"

definition interim_blocks :: "pystr \<Rightarrow> bool \<Rightarrow> bytes" where
  "interim_blocks mode http =
     (if mode \<in> {latin1 ''100'', latin1 ''interim''} then header_bytes ''100 Continue'' [] http else [])
     @ (if mode \<in> {latin1 ''103'', latin1 ''interim''}
        then header_bytes ''103 Early Hints'' [(''Link'', ''</early.css>; rel=preload'')] http else [])"

definition response_plan :: "unicode \<Rightarrow> pyval \<Rightarrow> bool \<Rightarrow> bytes \<Rightarrow> plan res" where
  "response_plan u requested http echo =
     (let mode = canonical_mode u requested; normal = normal_response http in
      if mode = latin1 ''normal'' then plan_of normal False False False
      else if mode = latin1 ''partial'' then plan_of normal True False False
      else if mode = latin1 ''chunked-trailers'' then
        plan_of (header_bytes ''200 OK''
            [(''Content-Type'', ''text/plain''), (''Transfer-Encoding'', ''chunked''),
             (''Trailer'', ''X-Backend-Trailer''), (''Connection'', ''close'')] http
          @ ''4'' @ crlf @ ''part'' @ crlf @ ''3'' @ crlf @ ''ial'' @ crlf @ ''0'' @ crlf
          @ ''X-Backend-Trailer: done'' @ crlf @ crlf) False False False
      else if mode \<in> {latin1 ''100'', latin1 ''103'', latin1 ''interim''} then
        plan_of (interim_blocks mode http @ normal) False False False
      else if mode = latin1 ''early-close'' then
        plan_of (header_bytes ''200 OK''
            [(''Content-Type'', ''text/plain''), (''Content-Length'', ''64''),
             (''Connection'', ''close'')] http @ ''short'' @ [CHR 0x0A]) False True False
      else if mode = latin1 ''malformed-headers'' then
        plan_of (status_line http @ ''Header Without Colon'' @ crlf @ ''Content-Length: 3''
          @ crlf @ crlf @ ''bad'') False False False
      else if mode = latin1 ''truncated-headers'' then
        plan_of (status_line http @ ''Content-Length: 3'' @ crlf @ ''X-Truncated:'') False True False
      else if mode = latin1 ''malformed-chunk'' then
        plan_of (header_bytes ''200 OK''
            [(''Transfer-Encoding'', ''chunked''), (''Connection'', ''close'')] http
          @ ''Z'' @ crlf @ ''bad'' @ crlf @ ''0'' @ crlf @ crlf) False False False
      else if mode = latin1 ''truncated-chunk'' then
        plan_of (header_bytes ''200 OK''
            [(''Transfer-Encoding'', ''chunked''), (''Connection'', ''close'')] http
          @ ''5'' @ crlf @ ''xy'') False True False
      else if mode = latin1 ''redirect-cookie'' then
        plan_of (header_bytes ''302 Found''
            [(''Location'', ''/__backend__/'' @ ''normal''),
             (''Set-Cookie'', ''fixture=1; Path=/; Domain=backend.invalid''),
             (''Content-Length'', ''0''), (''Connection'', ''close'')] http) False False False
      else if mode = latin1 ''upgrade'' then
        plan_of (header_bytes ''101 Switching Protocols''
            [(''Connection'', ''Upgrade''), (''Upgrade'', ''backend-echo'')] http
          @ take MAX_REQUEST echo) False False True
      else Inl AssertionError)"

section \<open>A reader of responses\<close>

text \<open>
  What a client makes of the bytes once the connection is closed: a complete body, a response
  that stops short, one that breaks the grammar, or a switch to another protocol with the bytes
  that follow. Interim (1xx) responses are skipped.
\<close>

datatype reading = Complete bytes | Truncated | Malformed | Switched bytes

function read_chunks :: "bytes \<Rightarrow> bytes \<Rightarrow> reading" where
  "read_chunks body d =
     (case find_sub crlf d of
        None \<Rightarrow> Truncated
      | Some k \<Rightarrow>
          (case map hex_digit (latin1 (take k d)) of
             [Some n] \<Rightarrow>
               let rest = drop (k + 2) d in
               if n = 0 then
                 (if starts_with crlf rest \<or> find_sub crlf2 rest \<noteq> None then Complete body else Truncated)
               else if length rest < n + 2 then Truncated
               else if \<not> starts_with crlf (drop n rest) then Malformed
               else read_chunks (body @ take n rest) (drop (n + 2) rest)
           | _ \<Rightarrow> Malformed))"
  by pat_completeness auto
termination
  by (relation "measure (\<lambda>(body, d). length d)") auto

declare read_chunks.simps [simp del]

definition field_value :: "string \<Rightarrow> bytes list \<Rightarrow> bytes option" where
  "field_value name lines =
     (case filter (starts_with (name @ '': '')) lines of
        [] \<Rightarrow> None | l # _ \<Rightarrow> Some (drop (length name + 2) l))"

definition status_code :: "bool \<Rightarrow> bytes \<Rightarrow> nat option" where
  "status_code http line =
     (let prefix = (if http then ''HTTP/1.1 '' else ''Status: ''); code = take 3 (drop (length prefix) line)
      in if starts_with prefix line \<and> length code = 3 \<and> list_all is_digit code
         then Some (digits_value code) else None)"

definition read_body :: "bytes list \<Rightarrow> bytes \<Rightarrow> reading" where
  "read_body lines d =
     (if \<not> list_all (\<lambda>l. CHR '':'' \<in> set l) lines then Malformed
      else if field_value ''Transfer-Encoding'' lines = Some ''chunked'' then read_chunks [] d
      else (case field_value ''Content-Length'' lines of
              Some v \<Rightarrow> let n = digits_value v in
                if length d < n then Truncated else if length d = n then Complete d else Malformed
            | None \<Rightarrow> Complete d))"

function read_response :: "bool \<Rightarrow> bytes \<Rightarrow> reading" where
  "read_response http d =
     (case find_sub crlf2 d of
        None \<Rightarrow> Truncated
      | Some k \<Rightarrow>
          let head_lines = split_sub crlf (take k d); rest = drop (k + 4) d in
          (case status_code http (hd head_lines) of
             None \<Rightarrow> Malformed
           | Some code \<Rightarrow>
               if code = 101 then Switched rest
               else if 100 \<le> code \<and> code < 200 then read_response http rest
               else read_body (tl head_lines) rest))"
  by pat_completeness auto
termination
proof (relation "measure (\<lambda>(http, d). length d)")
  show "find_sub crlf2 d = Some k \<Longrightarrow> x = split_sub crlf (take k d) \<Longrightarrow> rest = drop (k + 4) d \<Longrightarrow>
      ((http, rest), http, d) \<in> measure (\<lambda>(http, d). length d)" for http d k x rest
    using find_sub_Some_length [of crlf2 d k] by (simp add: crlf2_def)
qed simp

declare read_response.simps [simp del]

section \<open>Lemmas on modes\<close>

lemma latin1_eq [simp]: "latin1 a = latin1 b \<longleftrightarrow> a = b"
proof -
  have "inj (of_char :: char \<Rightarrow> nat)" by (rule injI) simp
  then show ?thesis by (simp add: latin1_def inj_map_eq_map)
qed

lemma normal_known [simp]: "latin1 ''normal'' \<in> set MODE_NAMES"
  by (simp add: MODE_NAMES_def)

lemma canonical_mode_known [simp]: "canonical_mode u v \<in> set MODE_NAMES"
  by (simp add: canonical_mode_def Let_def)

lemma path_mode_known [simp]: "path_mode u p \<in> set MODE_NAMES"
  by (simp add: path_mode_def Let_def)

lemma select_mode_known_aux: "select_mode u uri hs \<in> set MODE_NAMES"
  by (simp add: select_mode_def Let_def split: option.splits prod.splits)

lemma mode_cases [consumes 1, case_names normal chunked c100 c103 interim early_close
    malformed_headers truncated_headers malformed_chunk truncated_chunk redirect upgrade partial]:
  assumes "m \<in> set MODE_NAMES"
  obtains "m = latin1 ''normal''" | "m = latin1 ''chunked-trailers''" | "m = latin1 ''100''"
    | "m = latin1 ''103''" | "m = latin1 ''interim''" | "m = latin1 ''early-close''"
    | "m = latin1 ''malformed-headers''" | "m = latin1 ''truncated-headers''"
    | "m = latin1 ''malformed-chunk''" | "m = latin1 ''truncated-chunk''"
    | "m = latin1 ''redirect-cookie''" | "m = latin1 ''upgrade''" | "m = latin1 ''partial''"
  using assms by (auto simp: MODE_NAMES_def)

text \<open>A mode name stands for itself.\<close>

lemma mode_value_name: "m \<in> set MODE_NAMES \<Longrightarrow> mode_value u (Str m) = m"
  by (elim mode_cases)
    (simp_all add: mode_value_def MODE_ALIASES_def str_strip_def strip_by_def rstrip_by_def
      str_space_def str_lower_def lower_char_def replace1_def latin1_def)

lemma canonical_mode_name [simp]: "m \<in> set MODE_NAMES \<Longrightarrow> canonical_mode u (Str m) = m"
  by (simp add: canonical_mode_def mode_value_name)

section \<open>Reading the responses back\<close>

lemma read_response_head:
  assumes "list_all line_ok (l # ls)" "status_code http l = Some c"
  shows "read_response http (crlf_lines (l # ls) @ crlf @ rest) =
    (if c = 101 then Switched rest
     else if 100 \<le> c \<and> c < 200 then read_response http rest else read_body ls rest)"
proof -
  let ?j = "join_lines (l # ls)"
  have j: "crlf_lines (l # ls) @ crlf @ rest = ?j @ crlf2 @ rest"
    by (rule crlf_lines_join) simp
  have "find_sub crlf2 (?j @ crlf2 @ rest) = Some (length ?j)"
    by (rule find_blank_line [OF assms(1)]) simp
  moreover have "split_sub crlf (take (length ?j) (?j @ crlf2 @ rest)) = l # ls"
    using split_join_lines [OF assms(1)] by simp
  moreover have "drop (length ?j + 4) (?j @ crlf2 @ rest) = rest"
    by (simp add: crlf2_def)
  ultimately show ?thesis
    unfolding j by (simp add: read_response.simps [of http "?j @ crlf2 @ rest"] assms(2) Let_def
        del: take_append drop_append)
qed

lemma header_bytes_lines:
  "header_bytes status pairs http = crlf_lines
     (((if http then ''HTTP/1.1 '' else ''Status: '') @ status) # map (\<lambda>(k, v). k @ '': '' @ v) pairs) @ crlf"
  by (simp add: header_bytes_def crlf_lines_def o_def case_prod_unfold)

lemma read_header_bytes:
  assumes "list_all (\<lambda>(k, v). line_ok (k @ '': '' @ v)) pairs" "CHR 0x0D \<notin> set status"
    and "length (take 3 status) = 3" "list_all is_digit (take 3 status)"
  shows "read_response http (header_bytes status pairs http @ rest) =
    (let c = digits_value (take 3 status) in
     if c = 101 then Switched rest
     else if 100 \<le> c \<and> c < 200 then read_response http rest
     else read_body (map (\<lambda>(k, v). k @ '': '' @ v) pairs) rest)"
proof -
  let ?l = "(if http then ''HTTP/1.1 '' else ''Status: '') @ status"
  have s: "status_code http ?l = Some (digits_value (take 3 status))"
    using assms(3,4) by (simp add: status_code_def Let_def)
  have "list_all line_ok (?l # map (\<lambda>(k, v). k @ '': '' @ v) pairs)"
    using assms(1,2) by (auto simp: line_ok_def list_all_iff)
  from read_response_head [OF this s, of rest] show ?thesis
    by (simp add: header_bytes_lines Let_def)
qed

lemma read_chunk:
  assumes "hex_digit (byte_val h) = Some n" "0 < n" "length b = n" "h \<noteq> CHR 0x0D"
  shows "read_chunks body (h # crlf @ b @ crlf @ rest) = read_chunks (body @ b) rest"
proof -
  have "find_sub crlf (h # crlf @ b @ crlf @ rest) = Some 1"
    using assms(4) by (simp add: crlf_def)
  moreover have "take 1 (h # crlf @ b @ crlf @ rest) = [h]"
    "drop (1 + 2) (h # crlf @ b @ crlf @ rest) = b @ crlf @ rest"
    by (simp_all add: crlf_def)
  ultimately show ?thesis
    using assms(1-3) by (simp add: read_chunks.simps [of body "h # crlf @ b @ crlf @ rest"] latin1_def Let_def)
      (simp add: crlf_def)
qed

lemma read_last_chunk:
  assumes "find_sub crlf2 rest \<noteq> None \<or> starts_with crlf rest"
  shows "read_chunks body (CHR ''0'' # crlf @ rest) = Complete body"
proof -
  have "find_sub crlf (CHR ''0'' # crlf @ rest) = Some 1" "drop (1 + 2) (CHR ''0'' # crlf @ rest) = rest"
    by (simp_all add: crlf_def)
  then show ?thesis using assms
    by (simp add: read_chunks.simps [of body "CHR ''0'' # crlf @ rest"] latin1_def Let_def hex_digit_def
        del: find_sub.simps drop_append) blast
qed

text \<open>What the simplifier needs to read a status line and the fields of a response.\<close>

lemmas status_value = is_digit_def digits_value_def
lemmas field_eval = read_body_def field_value_def digits_value_def Let_def

lemma backend_body_length: "show_nat (length backend_body) = ''11''"
  by (simp add: backend_body_def show_nat.simps char_of_def bit_0)

lemma read_normal: "read_response http (normal_response http) = Complete backend_body"
proof -
  have "length backend_body = 11" by (simp add: backend_body_def)
  then show ?thesis unfolding normal_response_def backend_body_length
    by (subst read_header_bytes) (simp_all add: line_ok_def status_value field_eval)
qed
lemma read_chunked_trailers:
  fixes http
  shows "read_response http (header_bytes ''200 OK''
            [(''Content-Type'', ''text/plain''), (''Transfer-Encoding'', ''chunked''),
             (''Trailer'', ''X-Backend-Trailer''), (''Connection'', ''close'')] http
          @ ''4'' @ crlf @ ''part'' @ crlf @ ''3'' @ crlf @ ''ial'' @ crlf @ ''0'' @ crlf
          @ ''X-Backend-Trailer: done'' @ crlf @ crlf) = Complete ''partial''"
  (is "read_response http (?h @ ?c) = _")
proof -
  have "find_sub crlf2 (''X-Backend-Trailer: done'' @ crlf @ crlf) \<noteq> None"
    by (simp add: crlf_def crlf2_def)
  then have "read_chunks [] ?c = Complete ''partial''"
    using read_chunk [of "CHR ''4''" 4 "''part''" "[]"] read_chunk [of "CHR ''3''" 3 "''ial''" "''part''"]
     read_last_chunk [of "''X-Backend-Trailer: done'' @ crlf @ crlf" "''partial''"]
    by (simp add: hex_digit_def)
  then show ?thesis
    by (subst read_header_bytes) (simp_all add: line_ok_def status_value field_eval)
qed

lemma read_interim:
  "read_response http (interim_blocks m http @ normal_response http) = Complete backend_body"
  unfolding interim_blocks_def
  by (simp add: read_header_bytes [where rest = "d @ e" for d e] read_header_bytes
      line_ok_def status_value read_normal)

lemma read_early_close:
  "read_response http (header_bytes ''200 OK''
       [(''Content-Type'', ''text/plain''), (''Content-Length'', ''64''),
        (''Connection'', ''close'')] http @ ''short'' @ [CHR 0x0A]) = Truncated"
  by (subst read_header_bytes) (simp_all add: line_ok_def status_value field_eval)

lemma read_malformed_headers:
  "read_response http (status_line http @ ''Header Without Colon'' @ crlf @ ''Content-Length: 3''
     @ crlf @ crlf @ ''bad'') = Malformed"
proof -
  let ?l = "if http then ''HTTP/1.1 200 OK'' else ''Status: 200 OK''"
  let ?ls = "[''Header Without Colon'', ''Content-Length: 3'']"
  have "list_all line_ok (?l # ?ls)" "status_code http ?l = Some 200"
    by (simp_all add: line_ok_def status_code_def status_value Let_def)
  from read_response_head [OF this, of "''bad''"] show ?thesis
    by (simp add: crlf_lines_def status_line_def read_body_def)
qed

lemma read_truncated_headers:
  "read_response http (status_line http @ ''Content-Length: 3'' @ crlf @ ''X-Truncated:'') = Truncated"
  (is "read_response http ?d = _")
proof -
  have "find_sub crlf2 ?d = None"
    by (simp add: status_line_def crlf_def crlf2_def)
  then show ?thesis by (subst read_response.simps) (simp only: option.case)
qed

lemma read_malformed_chunk:
  "read_response http (header_bytes ''200 OK''
       [(''Transfer-Encoding'', ''chunked''), (''Connection'', ''close'')] http
     @ ''Z'' @ crlf @ ''bad'' @ crlf @ ''0'' @ crlf @ crlf) = Malformed"
proof -
  have "read_chunks [] (''Z'' @ crlf @ ''bad'' @ crlf @ ''0'' @ crlf @ crlf) = Malformed"
    by (simp add: read_chunks.simps crlf_def latin1_def hex_digit_def)
  then show ?thesis
    by (subst read_header_bytes) (simp_all add: line_ok_def status_value field_eval)
qed

lemma read_truncated_chunk:
  "read_response http (header_bytes ''200 OK''
       [(''Transfer-Encoding'', ''chunked''), (''Connection'', ''close'')] http
     @ ''5'' @ crlf @ ''xy'') = Truncated"
proof -
  have "read_chunks [] (''5'' @ crlf @ ''xy'') = Truncated"
    by (simp add: read_chunks.simps crlf_def latin1_def hex_digit_def)
  then show ?thesis
    by (subst read_header_bytes) (simp_all add: line_ok_def status_value field_eval)
qed

lemma read_redirect:
  "read_response http (header_bytes ''302 Found''
       [(''Location'', ''/__backend__/'' @ ''normal''),
        (''Set-Cookie'', ''fixture=1; Path=/; Domain=backend.invalid''),
        (''Content-Length'', ''0''), (''Connection'', ''close'')] http) = Complete []"
  using read_header_bytes [of "[(''Location'', ''/__backend__/'' @ ''normal''),
        (''Set-Cookie'', ''fixture=1; Path=/; Domain=backend.invalid''),
        (''Content-Length'', ''0''), (''Connection'', ''close'')]" "''302 Found''" http "[]"]
  by (simp add: line_ok_def status_value field_eval)

lemma read_upgrade:
  "read_response http (header_bytes ''101 Switching Protocols''
       [(''Connection'', ''Upgrade''), (''Upgrade'', ''backend-echo'')] http @ d) = Switched d"
  by (subst read_header_bytes) (simp_all add: line_ok_def status_value)

lemmas read_modes = read_normal read_chunked_trailers read_interim read_early_close
  read_malformed_headers read_truncated_headers read_malformed_chunk read_truncated_chunk
  read_redirect read_upgrade


text \<open>The specification of the modes.\<close>

definition mode_reading :: "pystr \<Rightarrow> bytes \<Rightarrow> reading" where
  "mode_reading m echo =
     (if m = latin1 ''chunked-trailers'' then Complete ''partial''
      else if m \<in> {latin1 ''early-close'', latin1 ''truncated-headers'', latin1 ''truncated-chunk''}
      then Truncated
      else if m \<in> {latin1 ''malformed-headers'', latin1 ''malformed-chunk''} then Malformed
      else if m = latin1 ''redirect-cookie'' then Complete []
      else if m = latin1 ''upgrade'' then Switched (take MAX_REQUEST echo)
      else Complete backend_body)"

definition mode_plan_ok :: "pystr \<Rightarrow> bool \<Rightarrow> bytes \<Rightarrow> plan \<Rightarrow> bool" where
  "mode_plan_ok m http echo p \<longleftrightarrow>
     read_response http (plan_wire p) = mode_reading m echo
     \<and> (plan_close_early p \<longleftrightarrow> mode_reading m echo = Truncated)
     \<and> (plan_upgrade p \<longleftrightarrow> m = latin1 ''upgrade'')
     \<and> (plan_partial p \<longleftrightarrow> m = latin1 ''partial'')"

lemma response_plan_ok:
  obtains p where "response_plan u v http echo = Inr p" "mode_plan_ok (canonical_mode u v) http echo p"
proof -
  have "canonical_mode u v \<in> set MODE_NAMES" by simp
  then have "\<exists>p. response_plan u v http echo = Inr p \<and> mode_plan_ok (canonical_mode u v) http echo p"
    by (cases rule: mode_cases)
      (simp_all add: response_plan_def mode_plan_ok_def mode_reading_def plan_of_def read_modes
        del: append.simps append_assoc)
  with that show ?thesis by blast
qed

text \<open>Only an upgrade's plan depends on the echo.\<close>

lemma response_plan_echo:
  obtains q where "response_plan u v http [] = Inr q"
    "\<And>echo. response_plan u v http echo = Inr (q\<lparr>plan_wire := plan_wire q @
        (if plan_upgrade q then take MAX_REQUEST echo else [])\<rparr>)"
proof -
  have "canonical_mode u v \<in> set MODE_NAMES" by simp
  then have "\<exists>q. response_plan u v http [] = Inr q \<and> (\<forall>echo. response_plan u v http echo =
      Inr (q\<lparr>plan_wire := plan_wire q @ (if plan_upgrade q then take MAX_REQUEST echo else [])\<rparr>))"
    by (cases rule: mode_cases) (simp_all add: response_plan_def plan_of_def)
  with that show ?thesis by blast
qed

section \<open>Selection by path and by query\<close>

lemma mode_name_chars:
  "m \<in> set MODE_NAMES \<Longrightarrow> m \<noteq> [] \<and> list_all (\<lambda>c. 32 < c \<and> c < 128 \<and> c \<notin> {35, 37, 38, 43, 47, 58, 61, 63}) m"
  by (elim mode_cases) (simp_all add: latin1_def)

lemma path_mode_final:
  assumes "m \<in> set MODE_NAMES"
  shows "path_mode u (p @ 47 # m @ replicate k 47) = m"
proof -
  have m: "m \<noteq> []" "47 \<notin> set m" "last m \<noteq> 47"
    using mode_name_chars [OF assms] last_in_set [of m] by (auto simp: list_all_iff)
  have "rstrip_by (\<lambda>c. c = 47) ((p @ 47 # m) @ replicate k 47) = p @ 47 # m"
    using m by (intro rstrip_by_append) (auto simp: list_all_iff)
  moreover have "last (split_on 47 (p @ 47 # m)) = m"
    using m by (simp add: last_split_on split_on_none)
  ultimately show ?thesis
    using assms by (simp add: path_mode_def mode_value_name)
qed

text \<open>The two query parameters, in the order in which they are tried.\<close>

lemma mode_key_chars:
  "key \<in> {''backend-mode'', ''mode''} \<Longrightarrow>
     list_all (\<lambda>c. 32 < c \<and> c < 128 \<and> c \<notin> {35, 37, 38, 43, 58, 61}) (latin1 key)"
  by (elim insertE emptyE) (simp_all add: latin1_def)

lemma parse_mode_query:
  assumes "key \<in> {''backend-mode'', ''mode''}" "m \<in> set MODE_NAMES"
  shows "parse_qsl (latin1 key @ 61 # m) = [(latin1 key, m)]"
proof -
  have m: "m \<noteq> []" "list_all (\<lambda>c. 32 < c \<and> c < 128 \<and> c \<notin> {35, 37, 38, 43, 47, 58, 61, 63}) m"
    using mode_name_chars [OF assms(2)] by auto
  note k = mode_key_chars [OF assms(1)]
  note mn = list_all_notin [OF m(2)] and kn = list_all_notin [OF k]
  have "unquote_plus m = m"
    by (rule unquote_plus_plain [OF list_all_weaken [OF m(2)]]) (simp_all add: mn)
  moreover have "unquote_plus (latin1 key) = latin1 key"
    by (rule unquote_plus_plain [OF list_all_weaken [OF k]]) (simp_all add: kn)
  moreover have "38 \<notin> set (latin1 key @ 61 # m)" by (simp add: mn kn)
  then have "split_on 38 (latin1 key @ 61 # m) = [latin1 key @ 61 # m]" by (rule split_on_none)
  moreover have "cut 61 (latin1 key @ 61 # m) = (latin1 key, Some m)"
    by (rule cut_some) (simp add: kn)
  ultimately show ?thesis by (simp add: parse_qsl_def parse_field_def)
qed

section \<open>Properties\<close>

text \<open>C16: whatever bytes a client sends, \<open>select_mode\<close> returns one of the documented mode
  names, and a mode header in the request decides alone, whatever the URI says.\<close>

theorem select_mode_known:
  "select_mode u uri hs \<in> set MODE_NAMES
   \<and> select_mode u uri (AList.update (latin1 ''x-backend-mode'') v hs) = canonical_mode u (Bytes v)"
  by (simp add: select_mode_known_aux) (simp add: select_mode_def update_conv)

text \<open>C17: without a mode header, every mode name is selected by ending any plain path with it
  (trailing slashes are ignored), which covers all the documented prefixes; and either query
  parameter selects it in preference to the path.\<close>

theorem select_mode_by_uri:
  assumes "m \<in> set MODE_NAMES" "map_of hs (latin1 ''x-backend-mode'') = None"
    and "plain_path (p @ [47])" "plain_path q" "q \<noteq> []"
  shows "select_mode u (Str (p @ 47 # m @ replicate k 47)) hs = m
    \<and> select_mode u (Str (q @ latin1 ''?backend-mode='' @ m)) hs = m
    \<and> select_mode u (Str (q @ latin1 ''?mode='' @ m)) hs = m"
proof -
  have mc: "list_all (\<lambda>c. 32 < c \<and> c < 128 \<and> c \<notin> {35, 37, 38, 43, 47, 58, 61, 63}) m" "m \<noteq> []"
    using mode_name_chars [OF assms(1)] by auto
  have "hd m \<noteq> 47"
    using hd_in_set [OF mc(2)] list_all_notin [OF mc(1), of 47] by auto
  then have "plain_path (p @ 47 # m @ replicate k 47)"
    by (rule plain_path_component [OF assms(3) mc(2) _ list_all_weaken [OF mc(1)]]) simp
  from urlsplit_query(2) [OF this, of "[]"]
  have path: "urlsplit u (p @ 47 # m @ replicate k 47) = Some (p @ 47 # m @ replicate k 47, [])"
    by simp
  have qk: "urlsplit u (q @ 63 # latin1 key @ 61 # m) = Some (q, latin1 key @ 61 # m)"
    if "key \<in> {''backend-mode'', ''mode''}" for key
  proof -
    have "list_all (\<lambda>c. 32 < c \<and> c \<notin> {35, 58}) (latin1 key @ 61 # m)"
      using list_all_weaken [OF mode_key_chars [OF that]] list_all_weaken [OF mc(1)] by simp
    then show ?thesis by (rule urlsplit_query(1) [OF assms(4) _ assms(5)])
  qed
  have "select_mode u (Str (p @ 47 # m @ replicate k 47)) hs = m"
    by (simp add: select_mode_def assms(2) path query_first_def parse_qsl_def path_mode_final
        [OF assms(1)])
  moreover have "select_mode u (Str (q @ 63 # latin1 key @ 61 # m)) hs = m"
    if "key \<in> {''backend-mode'', ''mode''}" for key
    using that by (auto simp: select_mode_def assms(1,2) qk query_first_def parse_mode_query)
  from this [of "''backend-mode''"] this [of "''mode''"]
  have "select_mode u (Str (q @ latin1 ''?backend-mode='' @ m)) hs = m"
    "select_mode u (Str (q @ latin1 ''?mode='' @ m)) hs = m"
    by (simp_all add: latin1_def)
  ultimately show ?thesis by simp
qed

lemma prefixes_plain:
  "list_all (\<lambda>p. plain_path p \<and> p \<noteq> [] \<and> last p = 47) MODE_PATH_PREFIXES"
  by (simp add: MODE_PATH_PREFIXES_def MODE_PATH_PREFIX_def latin1_def plain_path_def)

lemma select_mode_by_uri_witness:
  "list_all (\<lambda>prefix. list_all (\<lambda>m. select_mode plain_unicode (Str (prefix @ m)) [] = m) MODE_NAMES) MODE_PATH_PREFIXES"
proof -
  have "select_mode plain_unicode (Str (prefix @ m)) [] = m"
    if "prefix \<in> set MODE_PATH_PREFIXES" "m \<in> set MODE_NAMES" for prefix m
  proof -
    have p: "plain_path prefix" "prefix \<noteq> []" "last prefix = 47"
      using that(1) prefixes_plain by (auto simp: list_all_iff)
    then obtain q where q: "prefix = q @ [47]" by (metis append_butlast_last_id)
    from select_mode_by_uri [OF that(2), of "[]" q prefix plain_unicode 0] p show ?thesis by (simp add: q)
  qed
  then show ?thesis by (simp add: list_all_iff)
qed

text \<open>C18: \<open>response_plan\<close> answers every mode without an error (its closing
  \<open>AssertionError\<close> cannot be reached), and a client reads what the mode promises: the
  well-formed modes a complete body, the truncated modes a response that stops short (exactly
  these close the connection early), the malformed modes a violation of the grammar, and an
  upgrade the protocol switch followed by at most 1 MiB of echo.\<close>

theorem response_plan_reads:
  "\<exists>p. response_plan u v http echo = Inr p
     \<and> read_response http (plan_wire p) = mode_reading (canonical_mode u v) echo
     \<and> (plan_close_early p \<longleftrightarrow> mode_reading (canonical_mode u v) echo = Truncated)
     \<and> (plan_upgrade p \<longleftrightarrow> canonical_mode u v = latin1 ''upgrade'')
     \<and> (plan_partial p \<longleftrightarrow> canonical_mode u v = latin1 ''partial'')"
  using response_plan_ok [of u v http echo] by (auto simp: mode_plan_ok_def)

end
