(* ===== verification/Http_Handler.thy ===== *)
theory Http_Handler
  imports Sockets Modes
begin

text \<open>
  The HTTP handler of backend-responder.py: \<open>_parse_http_headers\<close> and \<open>handle_http\<close>, with
  the echo of an upgraded connection. The mapping of header names is in insertion order.
\<close>

section \<open>_parse_http_headers\<close>

text \<open>\<open>line.split(b" ", 2)\<close> when it has three parts.\<close>

definition request_line :: "bytes \<Rightarrow> (bytes \<times> bytes \<times> bytes) option" where
  "request_line line =
     (case cut (CHR '' '') line of
        (verb, Some r) \<Rightarrow>
          (case cut (CHR '' '') r of (uri, Some version) \<Rightarrow> Some (verb, uri, version) | _ \<Rightarrow> None)
      | _ \<Rightarrow> None)"

fun header_fields :: "unicode \<Rightarrow> headers \<Rightarrow> bytes list \<Rightarrow> headers" where
  "header_fields u hs [] = hs"
| "header_fields u hs (line # lines) =
     (case cut (CHR '':'') line of
        (key, None) \<Rightarrow> header_fields u hs lines
      | (key, Some value) \<Rightarrow>
          header_fields u (AList.update (str_lower u (str_strip (latin1 key))) (bytes_strip value) hs) lines)"

definition parse_http_headers :: "unicode \<Rightarrow> bytes \<Rightarrow> (bytes \<times> headers) res" where
  "parse_http_headers u data =
     (let lines = split_sub crlf (take (length data - 4) data) in
      case request_line (hd lines) of
        Some (verb, uri, version) \<Rightarrow>
          if verb \<noteq> [] \<and> uri \<noteq> [] \<and> starts_with ''HTTP/'' version
          then Inr (uri, header_fields u [] (tl lines))
          else Inl (ValueError ''invalid request line'')
      | None \<Rightarrow> Inl (ValueError ''invalid request line''))"

section \<open>handle_http\<close>

definition header_get :: "string \<Rightarrow> bytes \<Rightarrow> headers \<Rightarrow> bytes" where
  "header_get key dflt hs = (case map_of hs (latin1 key) of Some v \<Rightarrow> v | None \<Rightarrow> dflt)"

text \<open>A value \<open>int\<close> does not accept counts as 0; one out of range is an error.\<close>

definition http_content_length :: "nat \<Rightarrow> headers \<Rightarrow> nat res" where
  "http_content_length max_request hs =
     (let n = (case int_of_bytes (header_get ''content-length'' ''0'' hs) of Some i \<Rightarrow> i | None \<Rightarrow> 0)
      in if n < 0 \<or> n > int max_request then Inl (ValueError ''invalid content length'')
         else Inr (nat n))"

text \<open>The rest of the body; nothing is read when the header read already brought all of it.\<close>

definition read_rest :: "nat \<Rightarrow> bytes \<Rightarrow> bytes io" where
  "read_rest n body s =
     (if length body < n then io_bind (recv_exact (n - length body)) (\<lambda>d. io_return (body @ d)) s
      else (Inr body, s))"

function echo_loop :: "nat \<Rightarrow> unit io" where
  "echo_loop remaining s =
     (if remaining > 0 then
        (case recv (min 4096 remaining) s of
           (Inl e, s) \<Rightarrow> (Inl e, s)
         | (Inr block, s) \<Rightarrow>
             if block = [] then (Inr (), s)
             else (case send_data block False s of
                     (Inl e, s) \<Rightarrow> (Inl e, s)
                   | (Inr _, s) \<Rightarrow> echo_loop (remaining - length block) s))
      else (Inr (), s))"
  by pat_completeness auto
termination
  by (relation "measure fst") auto

declare echo_loop.simps [simp del]

text \<open>The time-out of the echo ends it; \<open>finally\<close> restores the socket's own time-out.\<close>

definition echo_upgraded :: "nat \<Rightarrow> unit io" where
  "echo_upgraded remaining s =
     (let prior_timeout = timeout s in
      case echo_loop remaining (set_timeout 500 s) of
        (Inl SocketTimeout, s) \<Rightarrow> (Inr (), set_timeout prior_timeout s)
      | (r, s) \<Rightarrow> (r, set_timeout prior_timeout s))"

definition handle_http :: "unicode \<Rightarrow> nat \<Rightarrow> bool io" where
  "handle_http u max_request =
     io_bind recv_headers (\<lambda>(header_data, extra).
     io_bind (io_lift (parse_http_headers u header_data)) (\<lambda>(uri, hs).
     io_bind (io_lift (http_content_length max_request hs)) (\<lambda>content_length.
     io_bind (read_rest content_length (take content_length extra)) (\<lambda>body.
     let mode = select_mode u (Bytes uri) hs; tunnel = drop content_length extra in
     io_bind (io_lift (response_plan u (Str mode) True tunnel)) (\<lambda>p.
     io_bind (send_data (plan_wire p) (plan_partial p)) (\<lambda>_.
     io_bind (if plan_upgrade p then echo_upgraded (max_request - length tunnel) else io_return ())
     (\<lambda>_. io_return (plan_close_early p \<or> plan_upgrade p))))))))"

section \<open>The echo\<close>

lemma set_timeout_simps [simp]:
  "rx (set_timeout t s) = rx s" "tx (set_timeout t s) = tx s" "accepts (set_timeout t s) = accepts s"
  "timeout (set_timeout t s) = t"
  by (simp_all add: set_timeout_def)

lemma peer_sends_cong: "rx s' = rx s \<Longrightarrow> peer_sends s' d = peer_sends s d"
  by (simp add: peer_sends_def)

lemma takes_all_cong: "accepts s' = accepts s \<Longrightarrow> takes_all s' = takes_all s"
  by (simp add: takes_all_def)

lemma out_side_eq: "out_side s' = out_side s \<longleftrightarrow>
    tx s' = tx s \<and> accepts s' = accepts s \<and> timeout s' = timeout s"
  by (simp add: out_side_def)

lemma echo_loop_peer:
  "peer_sends s d \<Longrightarrow> takes_all s \<Longrightarrow>
     \<exists>s'. echo_loop n s = (Inr (), s') \<and> tx s' = tx s @ take n d \<and> timeout s' = timeout s"
proof (induction n arbitrary: s d rule: less_induct)
  case (less n)
  show ?case
  proof (cases "n = 0")
    case True
    then show ?thesis by (simp add: echo_loop.simps)
  next
    case n: False
    then have "0 < min 4096 n" by simp
    from recv_peer [OF less.prems(1) this] obtain b d' s1 where
      r: "recv (min 4096 n) s = (Inr b, s1)" "d = b @ d'" "length b \<le> min 4096 n"
        "peer_sends s1 d'" "b = [] \<longrightarrow> d = []" by blast
    have o: "out_side s1 = out_side s" using r(1) by (rule peer.get_kept)
    show ?thesis
    proof (cases "b = []")
      case True
      with n r o show ?thesis by (simp add: echo_loop.simps [of n] out_side_eq)
    next
      case False
      have "takes_all s1" using less.prems(2) o by (simp add: out_side_eq cong: takes_all_cong)
      then obtain s2 where s2: "send_data b False s1 = (Inr (), s2)" "tx s2 = tx s1 @ b"
        "rx s2 = rx s1" "takes_all s2" "timeout s2 = timeout s1" by (rule send_data_takes)
      have p2: "peer_sends s2 d'" using r(4) peer_sends_cong [OF s2(3)] by simp
      have "n - length b < n" using False n by simp
      from less.IH [OF this p2 s2(4)] obtain s' where s':
        "echo_loop (n - length b) s2 = (Inr (), s')" "tx s' = tx s2 @ take (n - length b) d'"
        "timeout s' = timeout s2" by blast
      have "echo_loop n s = echo_loop (n - length b) s2"
        using n r(1) False s2(1) by (simp add: echo_loop.simps [of n s])
      moreover have "take n d = b @ take (n - length b) d'" using r(2,3) by simp
      ultimately show ?thesis using s' s2 o by (simp add: out_side_eq)
    qed
  qed
qed

lemma echo_upgraded_peer:
  assumes "peer_sends s d" "takes_all s"
  obtains s' where "echo_upgraded n s = (Inr (), s')" "tx s' = tx s @ take n d" "timeout s' = timeout s"
proof -
  let ?s = "set_timeout 500 s"
  have "peer_sends ?s d" "takes_all ?s"
    using assms peer_sends_cong [of ?s s] takes_all_cong [of ?s s] by simp_all
  from echo_loop_peer [OF this, of n] obtain s1 where
    "echo_loop n ?s = (Inr (), s1)" "tx s1 = tx s @ take n d" by auto
  then show ?thesis by (intro that [of "set_timeout (timeout s) s1"]) (simp_all add: echo_upgraded_def)
qed

lemma echo_upgraded_timeout: "echo_upgraded n s = (r, s') \<Longrightarrow> timeout s' = timeout s"
  by (auto simp: echo_upgraded_def Let_def split: prod.splits sum.splits py_error.splits)

section \<open>Reading the body\<close>

lemma read_rest_peer:
  assumes "peer_sends s d" "n - length body \<le> length d"
  obtains s' where "read_rest n body s = (Inr (body @ take (n - length body) d), s')"
    "peer_sends s' (drop (n - length body) d)" "out_side s' = out_side s"
proof (cases "length body < n")
  case True
  from recv_exact_peer [OF assms] obtain s' where
    s': "recv_exact (n - length body) s = (Inr (take (n - length body) d), s')"
      "peer_sends s' (drop (n - length body) d)" "out_side s' = out_side s" .
  with True show ?thesis by (intro that [of s']) (simp_all add: read_rest_def)
next
  case False
  with assms show ?thesis by (intro that [of s]) (simp_all add: read_rest_def)
qed

text \<open>After the body, what was read too much and what is still to come are the rest.\<close>

lemma read_body_peer:
  assumes "peer_sends s d" "extra @ d = b @ rest"
  obtains s' d' where "read_rest (length b) (take (length b) extra) s = (Inr b, s')"
    "peer_sends s' d'" "drop (length b) extra @ d' = rest" "out_side s' = out_side s"
proof -
  let ?n = "length b" and ?body = "take (length b) extra"
  have "?n \<le> length (extra @ d)" using assms(2) by simp
  then have "?n - length ?body \<le> length d" by simp
  from read_rest_peer [OF assms(1) this] obtain s' where
    s': "read_rest ?n ?body s = (Inr (?body @ take (?n - length ?body) d), s')"
      "peer_sends s' (drop (?n - length ?body) d)" "out_side s' = out_side s" .
  have k: "?n - length ?body = ?n - length extra" by simp
  have "?body @ take (?n - length ?body) d = take ?n (extra @ d)" by (simp only: take_append k)
  moreover have "drop ?n extra @ drop (?n - length ?body) d = drop ?n (extra @ d)"
    by (simp only: drop_append k)
  ultimately show ?thesis using assms(2) s' by (intro that [of s' "drop (?n - length ?body) d"]) simp_all
qed

lemma read_rest_short:
  assumes "peer_sends s d" "length extra + length d < n"
  obtains s' where "read_rest n (take n extra) s = (Inl EOFError, s')" "out_side s' = out_side s"
proof -
  have "length d < n - length (take n extra)" using assms(2) by simp
  from recv_exact_short [OF assms(1) this] obtain s' where
    "recv_exact (n - length (take n extra)) s = (Inl EOFError, s')" "out_side s' = out_side s" .
  then show ?thesis using assms(2) by (intro that [of s']) (simp_all add: read_rest_def)
qed

section \<open>The handler as a function of the stream\<close>

text \<open>
  What a request is, said on the whole stream \<open>d\<close> of the client: the header block, the
  request line and the fields, the body length; and what it selects: the mode and the bytes
  behind the body.
\<close>

definition http_request :: "unicode \<Rightarrow> nat \<Rightarrow> bytes \<Rightarrow> (pystr \<times> bytes) res" where
  "http_request u max_request d =
     (case find_sub crlf2 (take (MAX_HEADERS + 1) d) of
        None \<Rightarrow> Inl (if length d \<le> MAX_HEADERS then EOFError else ValueError ''headers too large'')
      | Some k \<Rightarrow>
          res_bind (parse_http_headers u (take (k + 4) d)) (\<lambda>(uri, hs).
          res_bind (http_content_length max_request hs) (\<lambda>n.
            let r = drop (k + 4) d in
            if length r < n then Inl EOFError
            else Inr (select_mode u (Bytes uri) hs, drop n r))))"

definition http_handled :: "unicode \<Rightarrow> sock \<Rightarrow> (pystr \<times> bytes) res \<Rightarrow> bool res \<Rightarrow> sock \<Rightarrow> bool" where
  "http_handled u s request r s' \<longleftrightarrow> timeout s' = timeout s \<and>
     (case request of
        Inl e \<Rightarrow> r = Inl e \<and> tx s' = tx s
      | Inr (m, rest) \<Rightarrow> \<exists>p. response_plan u (Str m) True rest = Inr p
          \<and> r = Inr (plan_close_early p \<or> plan_upgrade p) \<and> tx s' = tx s @ plan_wire p)"

text \<open>The steps after the body: the response, and the echo of an upgrade.\<close>

lemma respond_http:
  assumes "peer_sends s d" "takes_all s" "t @ d = rest"
  obtains p q s2 s3 where "response_plan u m True t = Inr p" "response_plan u m True rest = Inr q"
    "send_data (plan_wire p) (plan_partial p) s = (Inr (), s2)"
    "(if plan_upgrade p then echo_upgraded (MAX_REQUEST - length t) else io_return ()) s2 = (Inr (), s3)"
    "tx s3 = tx s @ plan_wire q" "timeout s3 = timeout s"
    "plan_close_early p = plan_close_early q" "plan_upgrade p = plan_upgrade q"
proof -
  obtain q where q: "\<And>echo. response_plan u m True echo = Inr (q\<lparr>plan_wire := plan_wire q @
        (if plan_upgrade q then take MAX_REQUEST echo else [])\<rparr>)"
    by (rule response_plan_echo [of u m True]) blast
  let ?p = "\<lambda>t. q\<lparr>plan_wire := plan_wire q @ (if plan_upgrade q then take MAX_REQUEST t else [])\<rparr>"
  obtain s2 where s2: "send_data (plan_wire (?p t)) (plan_partial (?p t)) s = (Inr (), s2)"
    "tx s2 = tx s @ plan_wire (?p t)" "rx s2 = rx s" "takes_all s2" "timeout s2 = timeout s"
    using assms(2) by (rule send_data_takes)
  have p2: "peer_sends s2 d" using assms(1) peer_sends_cong [OF s2(3)] by simp
  obtain s4 where s4: "echo_upgraded (MAX_REQUEST - length t) s2 = (Inr (), s4)"
    "tx s4 = tx s2 @ take (MAX_REQUEST - length t) d" "timeout s4 = timeout s2"
    using echo_upgraded_peer [OF p2 s2(4)] .
  have rest: "take MAX_REQUEST t @ take (MAX_REQUEST - length t) d = take MAX_REQUEST rest"
    using assms(3) by (metis take_append)
  have "(if plan_upgrade (?p t) then echo_upgraded (MAX_REQUEST - length t) else io_return ()) s2
      = (Inr (), if plan_upgrade q then s4 else s2)"
    using s4(1) by simp
  moreover have "tx (if plan_upgrade q then s4 else s2) = tx s @ plan_wire (?p rest)"
    "timeout (if plan_upgrade q then s4 else s2) = timeout s"
    using s2(2,5) s4(2,3) rest by auto
  ultimately show ?thesis
    using that [OF q [of t] q [of rest] s2(1)] by simp
qed

lemma handle_http_spec:
  assumes s: "peer_sends s d" "takes_all s"
  obtains r s' where "handle_http u MAX_REQUEST s = (r, s')"
    "http_handled u s (http_request u MAX_REQUEST d) r s'"
proof (cases "find_sub crlf2 (take (MAX_HEADERS + 1) d)")
  case None
  with recv_headers_peer [OF s(1)] that show ?thesis
    by (fastforce simp: handle_http_def http_handled_def http_request_def out_side_eq)
next
  case (Some k)
  with recv_headers_peer [OF s(1)] obtain extra d1 s1 where
    s1: "recv_headers s = (Inr (take (k + 4) d, extra), s1)" "drop (k + 4) d = extra @ d1"
      "peer_sends s1 d1" "out_side s1 = out_side s" by auto
  note run = s1(1) and spec = Some s1(2)
  show ?thesis
  proof (cases "parse_http_headers u (take (k + 4) d)")
    case (Inl e)
    with run spec s1(4) show ?thesis
      by (intro that [of "Inl e" s1]) (simp_all add: handle_http_def http_handled_def http_request_def out_side_eq)
  next
    case (Inr q)
    obtain uri hs where p: "parse_http_headers u (take (k + 4) d) = Inr (uri, hs)"
      using Inr by (cases q) simp
    show ?thesis
    proof (cases "http_content_length MAX_REQUEST hs")
      case (Inl e)
      with run spec s1(4) p show ?thesis
        by (intro that [of "Inl e" s1]) (simp_all add: handle_http_def http_handled_def http_request_def out_side_eq)
    next
      case n: (Inr n)
      show ?thesis
      proof (cases "length (extra @ d1) < n")
        case True
        then have "length extra + length d1 < n" by simp
        from read_rest_short [OF s1(3) this] obtain s2 where
          "read_rest n (take n extra) s1 = (Inl EOFError, s2)" "out_side s2 = out_side s1" .
        with run spec s1(4) p n True show ?thesis
          by (intro that [of "Inl EOFError" s2])
            (simp_all add: handle_http_def http_handled_def http_request_def out_side_eq)
      next
        case False
        define b rest where "b = take n (extra @ d1)" and "rest = drop n (extra @ d1)"
        have b: "length b = n" "extra @ d1 = b @ rest"
          using False by (simp_all only: b_def rest_def append_take_drop_id) simp
        from read_body_peer [OF s1(3) b(2)] obtain s2 d2 where
          s2: "read_rest n (take n extra) s1 = (Inr b, s2)" "peer_sends s2 d2"
            "drop n extra @ d2 = rest" "out_side s2 = out_side s1" unfolding b(1) .
        have t2: "takes_all s2" using s(2) s1(4) s2(4) takes_all_cong [of s2 s] by (simp add: out_side_eq)
        from respond_http [OF s2(2) t2 s2(3), of u "Str (select_mode u (Bytes uri) hs)"]
        obtain p1 q1 s3 s4 where r: "response_plan u (Str (select_mode u (Bytes uri) hs)) True (drop n extra) = Inr p1"
          "response_plan u (Str (select_mode u (Bytes uri) hs)) True rest = Inr q1"
          "send_data (plan_wire p1) (plan_partial p1) s2 = (Inr (), s3)"
          "(if plan_upgrade p1 then echo_upgraded (MAX_REQUEST - length (drop n extra)) else io_return ()) s3
             = (Inr (), s4)" "tx s4 = tx s2 @ plan_wire q1" "timeout s4 = timeout s2"
          "plan_close_early p1 = plan_close_early q1" "plan_upgrade p1 = plan_upgrade q1" .
        have "handle_http u MAX_REQUEST s = (Inr (plan_close_early q1 \<or> plan_upgrade q1), s4)"
          using run p n s2(1) r(1,3,4,7,8) by (simp add: handle_http_def Let_def)
        moreover have "http_request u MAX_REQUEST d = Inr (select_mode u (Bytes uri) hs, rest)"
          using spec p n False by (simp add: http_request_def rest_def)
        ultimately show ?thesis
          using r(2,5,6) s2(4) s1(4) by (intro that) (simp_all add: http_handled_def out_side_eq)
      qed
    qed
  qed
qed

section \<open>Requests written as lines\<close>

lemma request_line_parts:
  "CHR '' '' \<notin> set verb \<Longrightarrow> CHR '' '' \<notin> set uri \<Longrightarrow>
     request_line (verb @ CHR '' '' # uri @ CHR '' '' # version) = Some (verb, uri, version)"
  by (simp add: request_line_def cut_some)

lemma header_fields_field:
  "CHR '':'' \<notin> set key \<Longrightarrow> header_fields u hs ((key @ CHR '':'' # value) # lines) =
     header_fields u (AList.update (str_lower u (str_strip (latin1 key))) (bytes_strip value) hs) lines"
  by (simp add: cut_some)

lemma parse_http_lines:
  assumes "list_all line_ok (l # ls)" "request_line l = Some (verb, uri, version)"
    and "verb \<noteq> []" "uri \<noteq> []" "starts_with ''HTTP/'' version"
  shows "parse_http_headers u (crlf_lines (l # ls) @ crlf) = Inr (uri, header_fields u [] ls)"
proof -
  let ?j = "join_lines (l # ls)"
  have j: "crlf_lines (l # ls) @ crlf = ?j @ crlf2"
    using crlf_lines_join [of "l # ls" "[]"] by simp
  have "take (length (?j @ crlf2) - 4) (?j @ crlf2) = ?j" by (simp add: crlf2_def)
  then have "split_sub crlf (take (length (?j @ crlf2) - 4) (?j @ crlf2)) = l # ls"
    using split_join_lines [OF assms(1)] by simp
  with assms(2-5) show ?thesis unfolding j parse_http_headers_def by (simp only: Let_def) simp
qed

lemma http_request_lines_aux:
  assumes "list_all line_ok (l # ls)" "request_line l = Some (verb, uri, version)"
    and "verb \<noteq> []" "uri \<noteq> []" "starts_with ''HTTP/'' version"
    and len: "length (crlf_lines (l # ls)) < MAX_HEADERS"
    and "http_content_length max_request (header_fields u [] ls) = Inr (length b)"
  shows "http_request u max_request (crlf_lines (l # ls) @ crlf @ b @ rest) =
    Inr (select_mode u (Bytes uri) (header_fields u [] ls), rest)"
proof -
  let ?h = "crlf_lines (l # ls) @ crlf" and ?j = "join_lines (l # ls)"
  have j: "?h = ?j @ crlf2" using crlf_lines_join [of "l # ls" "[]"] by simp
  have h: "?h @ d = ?j @ crlf2 @ d" for d by (simp only: j append_assoc)
  have k: "length ?h = length ?j + 4" unfolding j by (simp add: crlf2_def)
  have fit: "length ?h \<le> MAX_HEADERS + 1" using len by (simp add: crlf_def)
  have take: "take (MAX_HEADERS + 1) (?h @ d) = ?h @ take (MAX_HEADERS + 1 - length ?h) d" for d
    unfolding take_append [of _ ?h] using fit by (simp only: take_all)
  have "find_sub crlf2 (take (MAX_HEADERS + 1) (?h @ b @ rest)) = Some (length ?j)"
    by (subst take, subst h, rule find_blank_line [OF assms(1)]) simp
  moreover have "take (length ?j + 4) (?h @ b @ rest) = ?h" "drop (length ?j + 4) (?h @ b @ rest) = b @ rest"
    using k by simp_all
  moreover note parse_http_lines [OF assms(1-5), of u]
  moreover have "http_request u max_request d = Inr (select_mode u (Bytes uri) hs, rest)"
    if "find_sub crlf2 (take (MAX_HEADERS + 1) d) = Some k" "take (k + 4) d = h'"
      "drop (k + 4) d = b @ rest" "parse_http_headers u h' = Inr (uri, hs)"
      "http_content_length max_request hs = Inr (length b)" for d k h' hs
    using that by (simp add: http_request_def Let_def)
  ultimately have "http_request u max_request (?h @ b @ rest) =
      Inr (select_mode u (Bytes uri) (header_fields u [] ls), rest)"
    using assms(7) by blast
  then show ?thesis by (simp only: append_assoc)
qed

section \<open>Properties\<close>

text \<open>C19: \<open>handle_http\<close> is a function of the client's byte stream, however the network cuts
  it, as long as the client takes what is sent: a stream that is not a request within the
  limits raises its error with nothing sent, every other one is answered with exactly the bytes
  of its mode's plan, where an upgrade echoes what follows the body, up to 1 MiB in all over the
  header read and the echo loop; and the socket's time-out is what it was.\<close>

theorem handle_http_refines:
  assumes "peer_sends s d" "takes_all s"
  shows "\<exists>r s'. handle_http u MAX_REQUEST s = (r, s') \<and> timeout s' = timeout s \<and>
    (case http_request u MAX_REQUEST d of
       Inl e \<Rightarrow> r = Inl e \<and> tx s' = tx s
     | Inr (m, rest) \<Rightarrow> \<exists>p. response_plan u (Str m) True rest = Inr p
         \<and> r = Inr (plan_close_early p \<or> plan_upgrade p) \<and> tx s' = tx s @ plan_wire p)"
proof -
  obtain r s' where "handle_http u MAX_REQUEST s = (r, s')"
    "http_handled u s (http_request u MAX_REQUEST d) r s'"
    by (rule handle_http_spec [OF assms])
  then show ?thesis unfolding http_handled_def by blast
qed

lemma handle_http_refines_witness:
  "\<exists>s'. handle_http plain_unicode MAX_REQUEST
      \<lparr>rx = [Chunk ''GE'', Chunk (''T /'' @ crlf2)], tx = [], accepts = [Accept 1], timeout = 5\<rparr>
    = (Inl (ValueError ''invalid request line''), s') \<and> tx s' = []"
proof -
  let ?s = "\<lparr>rx = [Chunk ''GE'', Chunk (''T /'' @ crlf2)], tx = [], accepts = [Accept 1], timeout = 5\<rparr>"
  let ?d = "''GET /'' @ crlf2"
  have p: "peer_sends ?s ?d" "takes_all ?s"
    by (auto simp: peer_sends_def takes_all_def intro!: exI [of _ "[''GE'', ''T /'' @ crlf2]"])
  have "find_sub crlf2 (''GET /'' @ crlf2 @ []) = Some (length (join_lines [''GET /'']))"
    using find_blank_line [of "[''GET /'']" "[]"] by (simp add: line_ok_def)
  then have "http_request plain_unicode MAX_REQUEST ?d = Inl (ValueError ''invalid request line'')"
    by (simp add: http_request_def parse_http_headers_def MAX_HEADERS_def crlf2_def
        split_sub.simps crlf_def request_line_def cut_def)
  with handle_http_refines [OF p, of plain_unicode] show ?thesis by auto
qed

text \<open>C20: a request of a line \<open>verb uri HTTP/...\<close>, any header lines and a body of the
  declared length, together within 64 KiB of headers, is accepted with the mode \<open>select_mode\<close>
  picks from its URI and its header fields, and exactly its own bytes are taken.\<close>

theorem http_request_lines:
  assumes "list_all line_ok (l # ls)" "request_line l = Some (verb, uri, version)"
    and "verb \<noteq> []" "uri \<noteq> []" "starts_with ''HTTP/'' version"
    and "length (crlf_lines (l # ls)) < MAX_HEADERS"
    and "http_content_length max_request (header_fields u [] ls) = Inr (length b)"
  shows "http_request u max_request (crlf_lines (l # ls) @ crlf @ b @ rest) =
    Inr (select_mode u (Bytes uri) (header_fields u [] ls), rest)"
  by (rule http_request_lines_aux [OF assms])

text \<open>A request whose header overrules its path, with a body and a second request behind it.\<close>

lemma http_request_lines_witness:
  "http_request plain_unicode MAX_REQUEST
     (crlf_lines [''POST /backend/normal HTTP/1.1'', ''X-Backend-Mode: Early_Close'', ''Content-Length: 2'']
        @ crlf @ ''ab'' @ ''GET /'') = Inr (latin1 ''early-close'', ''GET /'')"
proof -
  let ?ls = "[''X-Backend-Mode: Early_Close'', ''Content-Length: 2'']"
  let ?hs = "[(latin1 ''x-backend-mode'', ''Early_Close''), (latin1 ''content-length'', ''2'')]"
  have hs: "header_fields plain_unicode [] ?ls = ?hs"
    by (simp add: cut_def str_lower_def str_strip_def strip_by_def rstrip_by_def latin1_def
        lower_char_def str_space_def bytes_strip_def bytes_space_def)
  have n: "http_content_length MAX_REQUEST ?hs = Inr (length ''ab'')"
    by (simp add: http_content_length_def header_get_def int_of_bytes_def bytes_strip_def
        strip_by_def rstrip_by_def bytes_space_def is_digit_def digits_value_def MAX_REQUEST_def Let_def)
  have r: "request_line ''POST /backend/normal HTTP/1.1'' = Some (''POST'', ''/backend/normal'', ''HTTP/1.1'')"
    by (simp add: request_line_def cut_def)
  have m: "select_mode plain_unicode (Bytes ''/backend/normal'') ?hs = latin1 ''early-close''"
  proof -
    have "mode_value plain_unicode (Bytes ''Early_Close'') = latin1 ''early-close''"
      by (simp add: mode_value_def MODE_ALIASES_def str_strip_def strip_by_def rstrip_by_def
          str_space_def str_lower_def lower_char_def replace1_def latin1_def)
    then show ?thesis by (simp add: select_mode_def canonical_mode_def MODE_NAMES_def)
  qed
  have "list_all line_ok (''POST /backend/normal HTTP/1.1'' # ?ls)"
    by (simp add: line_ok_def)
  from http_request_lines [OF this r _ _ _ _ n [folded hs], of "''GET /''"] show ?thesis
    unfolding hs m by (simp add: crlf_lines_def MAX_HEADERS_def crlf_def)
qed

end
