(* ===== verification/Fastcgi.thy ===== *)
theory Fastcgi
  imports Http_Handler
begin

text \<open>
  The FastCGI side of backend-responder.py: the length and record encoders, the parser of the
  name/value pairs, and \<open>handle_fastcgi\<close>, which serves any number of requests of one
  connection, interleaved by request id. The open requests are a map from ids to their state;
  the record types are the numbers of the protocol (1 begin, 2 abort, 3 end, 4 params, 5 stdin,
  6 stdout). Name/value pairs and records are proved to be self-delimiting encodings.
\<close>

section \<open>_fcgi_length, _fcgi_params, fcgi_record\<close>

definition fcgi_length :: "nat \<Rightarrow> bytes res" where
  "fcgi_length n = (if n < 128 then byte1 n else to_bytes 4 (n OR 0x80000000))"

definition fcgi_truncated :: py_error where
  "fcgi_truncated = ValueError ''truncated FastCGI params''"

text \<open>A length and the offset behind it.\<close>

definition take_length :: "bytes \<Rightarrow> nat \<Rightarrow> (nat \<times> nat) res" where
  "take_length data offset =
     (if offset \<ge> length data then Inl fcgi_truncated
      else if byte_val (data ! offset) AND 0x80 \<noteq> 0 then
        (if length data - offset < 4 then Inl fcgi_truncated
         else Inr (from_bytes (slice data offset (offset + 4)) AND 0x7FFFFFFF, offset + 4))
      else Inr (byte_val (data ! offset), offset + 1))"

lemma take_length_progress: "take_length data offset = Inr (n, q) \<Longrightarrow> offset < q \<and> q \<le> length data"
  by (auto simp: take_length_def split: if_splits)

function fcgi_params_loop :: "bytes \<Rightarrow> nat \<Rightarrow> headers \<Rightarrow> headers res" where
  "fcgi_params_loop data offset result =
     (if offset < length data then
        (case take_length data offset of
           Inl e \<Rightarrow> Inl e
         | Inr (name_length, offset1) \<Rightarrow>
        (case take_length data offset1 of
           Inl e \<Rightarrow> Inl e
         | Inr (value_length, offset2) \<Rightarrow>
             let stop = offset2 + name_length + value_length in
             if stop > length data then Inl fcgi_truncated
             else fcgi_params_loop data stop
                    (AList.update (latin1 (slice data offset2 (offset2 + name_length)))
                       (slice data (offset2 + name_length) stop) result)))
      else Inr result)"
  by pat_completeness auto
termination
  by (relation "measure (\<lambda>(data, offset, result). length data - offset)")
    (auto dest!: take_length_progress)

declare fcgi_params_loop.simps [simp del]

definition fcgi_params :: "bytes \<Rightarrow> headers res" where
  "fcgi_params data = fcgi_params_loop data 0 []"

definition fcgi_record :: "nat \<Rightarrow> nat \<Rightarrow> bytes \<Rightarrow> bytes res" where
  "fcgi_record record_type request_id content =
     (if length content > 0xFFFF then Inl (ValueError ''FastCGI record too large'')
      else res_bind (res_map byte1
             [1, record_type, drop_bit 8 request_id, request_id AND 0xFF,
              drop_bit 8 (length content), length content AND 0xFF, 0, 0])
           (\<lambda>header. Inr (concat header @ content)))"

section \<open>handle_fastcgi\<close>

record fcgi_request =
  fq_params :: bytes
  fq_body :: bytes
  fq_headers :: headers
  fq_uri :: bytes
  fq_keep :: bool

type_synonym fcgi_requests = "nat \<Rightarrow> fcgi_request option"

text \<open>Text after \<open>HTTP_\<close>, lower-cased and with dashes: the header name of a variable. Two
  variables of one name leave the value of the later one.\<close>

definition cgi_header_name :: "unicode \<Rightarrow> pystr \<Rightarrow> pystr" where
  "cgi_header_name u key = replace1 95 45 (str_lower u (drop 5 key))"

fun cgi_headers :: "unicode \<Rightarrow> headers \<Rightarrow> headers \<Rightarrow> headers" where
  "cgi_headers u hs [] = hs"
| "cgi_headers u hs ((key, value) # params) =
     cgi_headers u (if starts_with (latin1 ''HTTP_'') key
                    then AList.update (cgi_header_name u key) value hs else hs) params"

definition fcgi_response :: "nat \<Rightarrow> plan \<Rightarrow> bytes res" where
  "fcgi_response request_id p =
     res_bind (fcgi_record 6 request_id (plan_wire p)) (\<lambda>out.
     if \<not> plan_close_early p then
       res_bind (fcgi_record 6 request_id []) (\<lambda>eof.
       res_bind (fcgi_record 3 request_id (replicate 8 (mk_byte 0))) (\<lambda>fin.
       Inr (out @ eof @ fin)))
     else Inr out)"

definition fcgi_respond :: "unicode \<Rightarrow> nat \<Rightarrow> pystr \<Rightarrow> bytes \<Rightarrow> bool \<Rightarrow> bool io" where
  "fcgi_respond u request_id mode body keep_connection =
     io_bind (io_lift (response_plan u (Str mode) False body)) (\<lambda>p.
     io_bind (io_lift (fcgi_response request_id p)) (\<lambda>out.
     io_bind (send_data out (plan_partial p)) (\<lambda>_.
     io_return (plan_close_early p \<or> \<not> keep_connection))))"

text \<open>One record from the socket: its type, its request id and its content.\<close>

definition read_record :: "(nat \<times> nat \<times> bytes) io" where
  "read_record =
     io_bind (recv_exact 8) (\<lambda>header.
     let version = byte_val (header ! 0); record_type = byte_val (header ! 1);
         request_id = from_bytes (slice header 2 4); content_length = from_bytes (slice header 4 6);
         padding_length = byte_val (header ! 6) in
     io_bind (if version \<noteq> 1 \<or> request_id = 0
              then io_raise (ValueError ''invalid FastCGI record'') else io_return ()) (\<lambda>_.
     io_bind (if content_length \<noteq> 0 then recv_exact content_length else io_return []) (\<lambda>content.
     io_bind (if padding_length \<noteq> 0 then recv_exact padding_length else io_return []) (\<lambda>_.
     io_return (record_type, request_id, content)))))"

definition fcgi_begin :: "fcgi_requests \<Rightarrow> nat \<Rightarrow> bytes \<Rightarrow> fcgi_requests res" where
  "fcgi_begin requests request_id content =
     (if length content \<noteq> 8 \<or> requests request_id \<noteq> None
      then Inl (ValueError ''invalid FastCGI begin request'')
      else Inr (requests(request_id \<mapsto> \<lparr>fq_params = [], fq_body = [], fq_headers = [],
             fq_uri = ''/'', fq_keep = (byte_val (content ! 2) AND 1 \<noteq> 0)\<rparr>)))"

definition fcgi_params_record ::
    "unicode \<Rightarrow> nat \<Rightarrow> fcgi_request \<Rightarrow> bytes \<Rightarrow> fcgi_request res" where
  "fcgi_params_record u max_request state content =
     (if content \<noteq> [] then
        (if length (fq_params state) + length content > max_request
         then Inl (ValueError ''FastCGI params too large'')
         else Inr (state\<lparr>fq_params := fq_params state @ content\<rparr>))
      else res_bind (fcgi_params (fq_params state)) (\<lambda>params.
        Inr (state\<lparr>fq_uri := header_get ''REQUEST_URI'' ''/'' params,
                   fq_headers := cgi_headers u [] params\<rparr>)))"

text \<open>What a record does; \<open>None\<close> is the \<open>return True\<close> that ends the connection.\<close>

definition fcgi_dispatch ::
    "unicode \<Rightarrow> nat \<Rightarrow> fcgi_requests \<Rightarrow> nat \<times> nat \<times> bytes \<Rightarrow> fcgi_requests option io" where
  "fcgi_dispatch u max_request requests = (\<lambda>(record_type, request_id, content).
     if record_type = 1 then
       io_bind (io_lift (fcgi_begin requests request_id content)) (\<lambda>requests. io_return (Some requests))
     else (case requests request_id of
       None \<Rightarrow> io_raise (ValueError ''FastCGI record without begin request'')
     | Some state \<Rightarrow>
         if record_type = 4 then
           io_bind (io_lift (fcgi_params_record u max_request state content)) (\<lambda>state.
           io_return (Some (requests(request_id \<mapsto> state))))
         else if record_type = 5 then
           (if content \<noteq> [] then
              (if length (fq_body state) + length content > max_request
               then io_raise (ValueError ''FastCGI body too large'')
               else io_return (Some (requests(request_id \<mapsto>
                      state\<lparr>fq_body := fq_body state @ content\<rparr>))))
            else
              io_bind (fcgi_respond u request_id
                (select_mode u (Bytes (fq_uri state)) (fq_headers state)) (fq_body state) (fq_keep state))
              (\<lambda>close. io_return (if close then None else Some (requests(request_id := None)))))
         else if record_type = 2 then io_return (Some (requests(request_id := None)))
         else io_return (Some requests)))"

text \<open>Every record takes its eight bytes of header off the stream, and an answer reads nothing.\<close>

lemma read_record_bytes:
  assumes "read_record s = (Inr r, s')"
  shows "length (rx_bytes (rx s')) < length (rx_bytes (rx s))"
proof -
  have opt: "(if n \<noteq> 0 then recv_exact n else io_return []) s = (Inr x, s') \<Longrightarrow>
      length (rx_bytes (rx s')) \<le> length (rx_bytes (rx s))" for n s x s'
    using recv_exact_bytes [of n s x s'] by (auto split: if_splits)
  have chk: "(if b then io_raise e else io_return ()) s = (Inr x, s') \<Longrightarrow> s' = s" for b e s x s'
    by (auto split: if_splits)
  from assms obtain h s1 s2 s3 c p where r: "recv_exact 8 s = (Inr h, s1)"
    "(if from_bytes (slice h 4 6) \<noteq> 0 then recv_exact (from_bytes (slice h 4 6)) else io_return []) s1
       = (Inr c, s2)"
    "(if byte_val (h ! 6) \<noteq> 0 then recv_exact (byte_val (h ! 6)) else io_return []) s2 = (Inr p, s3)"
    "s' = s3"
    unfolding read_record_def Let_def by (auto simp: io_bind_Inr_iff dest!: chk split: if_splits)
  have "length (rx_bytes (rx s1)) < length (rx_bytes (rx s))"
    using recv_exact_bytes [OF r(1)] by auto
  with opt [OF r(2)] opt [OF r(3)] r(4) show ?thesis by simp
qed

lemma fcgi_respond_rx: "fcgi_respond u i m body k s = (r, s') \<Longrightarrow> rx s' = rx s"
  using send_data_sent
  by (fastforce simp: fcgi_respond_def io_bind_def io_lift_def io_return_def sent_part_def
      split: prod.splits sum.splits)

lemma fcgi_dispatch_rx:
  assumes "fcgi_dispatch u max_request requests rec s = (r, s')"
  shows "rx s' = rx s"
  using assms fcgi_respond_rx
  by (auto simp: fcgi_dispatch_def io_bind_def io_lift_def io_return_def io_raise_def
      split: prod.splits sum.splits option.splits if_splits)

function fcgi_loop :: "unicode \<Rightarrow> nat \<Rightarrow> fcgi_requests \<Rightarrow> bool io" where
  "fcgi_loop u max_request requests s =
     (case read_record s of
        (Inl e, s1) \<Rightarrow> (Inl e, s1)
      | (Inr r, s1) \<Rightarrow>
          (case fcgi_dispatch u max_request requests r s1 of
             (Inl e, s2) \<Rightarrow> (Inl e, s2)
           | (Inr None, s2) \<Rightarrow> (Inr True, s2)
           | (Inr (Some requests), s2) \<Rightarrow> fcgi_loop u max_request requests s2))"
  by pat_completeness auto
termination
proof (relation "measure (\<lambda>(u, m, q, s). length (rx_bytes (rx s)))")
  show "(x, s1) = read_record s \<Longrightarrow> x = Inr r \<Longrightarrow> (y, s2) = fcgi_dispatch u m q r s1 \<Longrightarrow> y = Inr o1 \<Longrightarrow>
      o1 = Some q' \<Longrightarrow> ((u, m, q', s2), u, m, q, s) \<in> measure (\<lambda>(u, m, q, s). length (rx_bytes (rx s)))"
    for u m q s x s1 r y s2 o1 q'
    using read_record_bytes [of s r s1] fcgi_dispatch_rx [of u m q r s1 y s2] by simp
qed simp

declare fcgi_loop.simps [simp del]

definition handle_fastcgi :: "unicode \<Rightarrow> nat \<Rightarrow> bool io" where
  "handle_fastcgi u max_request = fcgi_loop u max_request (\<lambda>_. None)"

section \<open>Name/value pairs\<close>

text \<open>What \<open>_fcgi_length\<close> writes below 2^31, and a pair as a client sends it.\<close>

definition len_bytes :: "nat \<Rightarrow> bytes" where
  "len_bytes n = (if n < 128 then [mk_byte n] else be_bytes 4 (2 ^ 31 + n))"

definition enc_pair :: "bytes \<times> bytes \<Rightarrow> bytes" where
  "enc_pair p = (case p of (n, v) \<Rightarrow> len_bytes (length n) @ len_bytes (length v) @ n @ v)"

definition pair_ok :: "bytes \<times> bytes \<Rightarrow> bool" where
  "pair_ok p \<longleftrightarrow> length (fst p) < 2 ^ 31 \<and> length (snd p) < 2 ^ 31"

lemma fcgi_length_bytes: "n < 2 ^ 31 \<Longrightarrow> fcgi_length n = Inr (len_bytes n)"
proof -
  assume n: "n < 2 ^ 31"
  have "n OR 0x80000000 = 2 ^ 31 + n"
    using or_low_add [OF n, of 1] by (simp add: or.commute)
  with n show ?thesis by (simp add: fcgi_length_def len_bytes_def)
qed

lemma length_len_bytes: "length (len_bytes n) = (if n < 128 then 1 else 4)"
  by (simp add: len_bytes_def)

lemma be_bytes_4: "be_bytes 4 v =
    [mk_byte (v div 256 div 256 div 256 mod 256), mk_byte (v div 256 div 256 mod 256),
     mk_byte (v div 256 mod 256), mk_byte (v mod 256)]"
proof -
  have "(4::nat) = Suc (Suc (Suc (Suc 0)))" by simp
  then show ?thesis by (simp only: be_bytes.simps append.simps)
qed

lemma take_length_len:
  assumes "n < 2 ^ 31"
  shows "take_length (pre @ len_bytes n @ rest) (length pre) = Inr (n, length pre + length (len_bytes n))"
proof (cases "n < 128")
  case True
  then have "n AND 2 ^ 7 = 0" using and_high_bit [of n 7] by simp
  with True show ?thesis
    by (simp add: take_length_def len_bytes_def nth_append)
next
  case False
  let ?v = "2 ^ 31 + n" and ?d = "pre @ len_bytes n @ rest"
  have d: "?d = pre @ be_bytes 4 ?v @ rest" using False by (simp add: len_bytes_def)
  have "?d ! length pre = mk_byte (?v div 2 ^ 24 mod 256)"
    unfolding d by (simp add: be_bytes_4 nth_append div_mult2_eq [symmetric])
  moreover have "?v div 2 ^ 24 = 2 ^ 7 + n div 2 ^ 24"
    using div_mult_self2 [of "2 ^ 24" n "2 ^ 7 :: nat"] by (simp add: add.commute)
  moreover have "n div 2 ^ 24 < 2 ^ 7"
    using assms by (simp add: less_mult_imp_div_less)
  ultimately have "byte_val (?d ! length pre) = 2 ^ 7 + n div 2 ^ 24" "n div 2 ^ 24 < 2 ^ 7"
    by (simp_all del: of_char_of add: of_char_of)
  moreover from this have "odd (byte_val (?d ! length pre) div 2 ^ 7)"
    by (simp add: div_add_self1)
  ultimately have "byte_val (?d ! length pre) AND 0x80 \<noteq> 0"
    using and_high_bit [of "byte_val (?d ! length pre)" 7] by simp
  moreover have "slice ?d (length pre) (length pre + 4) = be_bytes 4 ?v"
    unfolding d slice_def by simp
  moreover have "from_bytes (be_bytes 4 ?v) = ?v"
    using assms by (intro from_be_bytes) simp
  moreover have "?v AND 0x7FFFFFFF = n"
    using and_mask_mod [of ?v 31] assms by simp
  moreover have "length pre < length ?d" "4 \<le> length ?d - length pre"
    unfolding d by simp_all
  ultimately show ?thesis using False
    by (simp add: take_length_def length_len_bytes del: length_append)
qed

lemma fcgi_params_pair:
  assumes "pair_ok (n, v)"
  shows "fcgi_params_loop (pre @ enc_pair (n, v) @ rest) (length pre) result =
    fcgi_params_loop (pre @ enc_pair (n, v) @ rest) (length (pre @ enc_pair (n, v)))
      (AList.update (latin1 n) v result)"
proof -
  let ?ln = "len_bytes (length n)" and ?lv = "len_bytes (length v)"
  let ?d = "pre @ enc_pair (n, v) @ rest" and ?q = "length pre + length ?ln + length ?lv"
  have d: "?d = pre @ ?ln @ ?lv @ n @ v @ rest" by (simp add: enc_pair_def)
  have n: "take_length ?d (length pre) = Inr (length n, length pre + length ?ln)"
    unfolding d using assms take_length_len [of "length n" pre "?lv @ n @ v @ rest"]
    by (simp add: pair_ok_def)
  have v: "take_length ?d (length pre + length ?ln) = Inr (length v, ?q)"
    unfolding d using assms take_length_len [of "length v" "pre @ ?ln" "n @ v @ rest"]
    by (simp add: pair_ok_def)
  have "slice ?d ?q (?q + length n) = n" "slice ?d (?q + length n) (?q + length n + length v) = v"
    unfolding d slice_def by simp_all
  moreover have "length pre < length ?d" "\<not> ?q + length n + length v > length ?d"
    "length (pre @ enc_pair (n, v)) = ?q + length n + length v"
    unfolding d by (simp_all add: enc_pair_def length_len_bytes)
  ultimately show ?thesis
    by (subst fcgi_params_loop.simps) (simp add: n v Let_def del: length_append)
qed

lemma fcgi_params_pairs:
  "list_all pair_ok ps \<Longrightarrow>
     fcgi_params_loop (pre @ concat (map enc_pair ps)) (length pre) result =
       Inr (foldl (\<lambda>r (n, v). AList.update (latin1 n) v r) result ps)"
proof (induction ps arbitrary: pre result)
  case Nil
  then show ?case by (simp add: fcgi_params_loop.simps)
next
  case (Cons p ps)
  obtain n v where p: "p = (n, v)" by (cases p)
  with Cons.prems have ok: "pair_ok (n, v)" "list_all pair_ok ps" by simp_all
  from Cons.IH [OF ok(2), of "pre @ enc_pair (n, v)"] show ?case
    using fcgi_params_pair [OF ok(1), of pre "concat (map enc_pair ps)" result] by (simp add: p)
qed

section \<open>Records\<close>

text \<open>
  A record as the protocol defines it (type, request id, content, padding), its bytes, and its
  reading off the front of a stream with the errors \<open>handle_fastcgi\<close> raises.
\<close>

type_synonym fcgi_rec = "nat \<times> nat \<times> bytes \<times> bytes"

definition rec_header :: "nat \<Rightarrow> nat \<Rightarrow> nat \<Rightarrow> nat \<Rightarrow> bytes" where
  "rec_header t i n p = mk_byte 1 # mk_byte t # be_bytes 2 i @ be_bytes 2 n @ [mk_byte p, mk_byte 0]"

definition enc_rec :: "fcgi_rec \<Rightarrow> bytes" where
  "enc_rec r = (case r of (t, i, c, p) \<Rightarrow> rec_header t i (length c) (length p) @ c @ p)"

definition rec_ok :: "fcgi_rec \<Rightarrow> bool" where
  "rec_ok r \<longleftrightarrow> (case r of (t, i, c, p) \<Rightarrow>
     t < 256 \<and> 0 < i \<and> i < 65536 \<and> length c < 65536 \<and> length p < 256)"

definition record_of :: "bytes \<Rightarrow> (fcgi_rec \<times> bytes) res" where
  "record_of d =
     (if length d < 8 then Inl EOFError
      else let i = from_bytes (slice d 2 4); n = from_bytes (slice d 4 6); p = byte_val (d ! 6);
               r = drop 8 d in
        if byte_val (d ! 0) \<noteq> 1 \<or> i = 0 then Inl (ValueError ''invalid FastCGI record'')
        else if length r < n + p then Inl EOFError
        else Inr ((byte_val (d ! 1), i, take n r, take p (drop n r)), drop (n + p) r))"

definition dec_rec :: "bytes \<Rightarrow> (fcgi_rec \<times> bytes) option" where
  "dec_rec d = (case record_of d of Inl e \<Rightarrow> None | Inr x \<Rightarrow> Some x)"

lemma length_rec_header [simp]: "length (rec_header t i n p) = 8"
  by (simp add: rec_header_def)

lemma rec_header_parts:
  "byte_val ((rec_header t i n p @ d) ! 0) = 1" "byte_val ((rec_header t i n p @ d) ! 1) = t mod 256"
  "slice (rec_header t i n p @ d) 2 4 = be_bytes 2 i" "slice (rec_header t i n p @ d) 4 6 = be_bytes 2 n"
  "byte_val ((rec_header t i n p @ d) ! 6) = p mod 256"
  by (simp_all add: rec_header_def slice_def be_bytes_2)

lemma record_of_enc: "rec_ok r \<Longrightarrow> record_of (enc_rec r @ rest) = Inr (r, rest)"
proof -
  assume ok: "rec_ok r"
  obtain t i c p where r: "r = (t, i, c, p)" by (cases r)
  let ?h = "rec_header t i (length c) (length p)"
  have e: "enc_rec r @ rest = ?h @ c @ p @ rest" by (simp add: r enc_rec_def)
  have "drop 8 (?h @ c @ p @ rest) = c @ p @ rest" by simp
  moreover have "from_bytes (be_bytes 2 i) = i" "from_bytes (be_bytes 2 (length c)) = length c"
    using ok by (auto simp: r rec_ok_def intro!: from_be_bytes)
  ultimately show ?thesis using ok unfolding e record_of_def rec_header_parts
    by (simp add: r rec_ok_def Let_def)
qed

interpretation fcgi: prefix_codec enc_rec dec_rec rec_ok
proof
  show "dec_rec (enc_rec r @ rest) = Some (r, rest)" if "rec_ok r" for r rest
    using that by (simp add: dec_rec_def record_of_enc)
  show "enc_rec r \<noteq> []" if "rec_ok r" for r
    by (cases r) (simp add: enc_rec_def rec_header_def)
qed

lemma fcgi_record_enc:
  "rec_ok (t, i, c, []) \<Longrightarrow> fcgi_record t i c = Inr (enc_rec (t, i, c, []))"
proof -
  assume ok: "rec_ok (t, i, c, [])"
  have b: "drop_bit 8 n = n div 256" "n AND 255 = n mod 256" for n :: nat
    using and_mask_mod [of n 8] by (simp_all add: drop_bit_eq_div)
  have "n div 256 < 256" if "n < 65536" for n :: nat
    using that by (simp add: less_mult_imp_div_less)
  with ok show ?thesis
    by (simp add: fcgi_record_def enc_rec_def rec_header_def rec_ok_def be_bytes_2 b)
qed

lemma fcgi_record_large:
  "65535 < length c \<Longrightarrow> fcgi_record t i c = Inl (ValueError ''FastCGI record too large'')"
  by (simp add: fcgi_record_def)

section \<open>The connection as a function of the stream\<close>

lemma read_record_peer:
  assumes "peer_sends s d"
  shows "\<exists>s'. out_side s' = out_side s \<and>
    (case record_of d of
       Inl e \<Rightarrow> read_record s = (Inl e, s')
     | Inr ((t, i, c, p), d') \<Rightarrow> read_record s = (Inr (t, i, c), s') \<and> peer_sends s' d')"
proof (cases "length d < 8")
  case True
  with recv_exact_short [OF assms] show ?thesis
    by (fastforce simp: read_record_def io_bind_def record_of_def)
next
  case False
  then have "8 \<le> length d" by simp
  from recv_exact_peer [OF assms this] obtain s1 where
    s1: "recv_exact 8 s = (Inr (take 8 d), s1)" "peer_sends s1 (drop 8 d)" "out_side s1 = out_side s" .
  define n p where "n = from_bytes (slice d 4 6)" and "p = byte_val (d ! 6)"
  have h: "slice (take 8 d) 2 4 = slice d 2 4" "slice (take 8 d) 4 6 = slice d 4 6"
    by (simp_all add: slice_def drop_take)
  have opt: "\<exists>s2. out_side s2 = out_side s1 \<and>
      (if length d' < k then (if k \<noteq> 0 then recv_exact k else io_return []) s1 = (Inl EOFError, s2)
       else (if k \<noteq> 0 then recv_exact k else io_return []) s1 = (Inr (take k d'), s2) \<and> peer_sends s2 (drop k d'))"
    if sends: "peer_sends s1 d'" for s1 d' k
  proof (cases "k = 0")
    case False
    show ?thesis
    proof (cases "length d' < k")
      case True
      obtain s2 where "recv_exact k s1 = (Inl EOFError, s2)" "out_side s2 = out_side s1"
        by (rule recv_exact_short [OF sends True])
      with True \<open>k \<noteq> 0\<close> show ?thesis by auto
    next
      case le: False
      then have "k \<le> length d'" by simp
      then obtain s2 where "recv_exact k s1 = (Inr (take k d'), s2)" "out_side s2 = out_side s1"
        "peer_sends s2 (drop k d')" by (rule recv_exact_peer [OF sends])
      with le \<open>k \<noteq> 0\<close> show ?thesis by auto
    qed
  qed (use sends in auto)
  show ?thesis
  proof (cases "byte_val (d ! 0) \<noteq> 1 \<or> from_bytes (slice d 2 4) = 0")
    case True
    with False s1 show ?thesis
      by (intro exI [of _ s1]) (auto simp: read_record_def record_of_def h Let_def io_bind_def io_raise_def)
  next
    case ok: False
    from opt [OF s1(2), of n] obtain s2 where s2: "out_side s2 = out_side s1"
      "if length (drop 8 d) < n then (if n \<noteq> 0 then recv_exact n else io_return []) s1 = (Inl EOFError, s2)
       else (if n \<noteq> 0 then recv_exact n else io_return []) s1 = (Inr (take n (drop 8 d)), s2)
         \<and> peer_sends s2 (drop n (drop 8 d))" by blast
    show ?thesis
    proof (cases "length (drop 8 d) < n")
      case True
      with False ok s1 s2 show ?thesis
        by (intro exI [of _ s2]) (auto simp: read_record_def record_of_def h Let_def io_bind_def n_def io_return_def)
    next
      case n: False
      with s2(2) have s2': "(if n \<noteq> 0 then recv_exact n else io_return []) s1 = (Inr (take n (drop 8 d)), s2)"
        "peer_sends s2 (drop n (drop 8 d))" by simp_all
      from opt [OF s2'(2), of p] obtain s3 where s3: "out_side s3 = out_side s2"
        "if length (drop n (drop 8 d)) < p then (if p \<noteq> 0 then recv_exact p else io_return []) s2 = (Inl EOFError, s3)
         else (if p \<noteq> 0 then recv_exact p else io_return []) s2 = (Inr (take p (drop n (drop 8 d))), s3)
           \<and> peer_sends s3 (drop p (drop n (drop 8 d)))" by blast
      have lt: "length (drop n (drop 8 d)) < p \<longleftrightarrow> length (drop 8 d) < n + p" using n by auto
      have "read_record s = (case (if p \<noteq> 0 then recv_exact p else io_return []) s2 of
          (Inl e, s3) \<Rightarrow> (Inl e, s3) | (Inr _, s3) \<Rightarrow> (Inr (byte_val (d ! 1), from_bytes (slice d 2 4), take n (drop 8 d)), s3))"
        using ok s1(1) s2'(1) unfolding n_def p_def
        by (cases "(if byte_val (d ! 6) \<noteq> 0 then recv_exact (byte_val (d ! 6)) else io_return []) s2")
          (auto simp: read_record_def h Let_def io_bind_def io_return_def split: sum.splits)
      then show ?thesis
        using False ok s1(3) s2(1) s3 lt
        by (intro exI [of _ s3]) (auto simp: record_of_def n_def [symmetric] p_def [symmetric] Let_def ac_simps)
    qed
  qed
qed

text \<open>
  What one record does to the request of its id: the new state, the bytes sent, and whether the
  connection ends.
\<close>

definition fcgi_transition ::
    "unicode \<Rightarrow> nat \<Rightarrow> nat \<Rightarrow> fcgi_request option \<Rightarrow> nat \<Rightarrow> bytes \<Rightarrow>
     (fcgi_request option \<times> bytes \<times> bool) res" where
  "fcgi_transition u max_request i st t c =
     (if t = 1 then
        (if length c \<noteq> 8 \<or> st \<noteq> None then Inl (ValueError ''invalid FastCGI begin request'')
         else Inr (Some \<lparr>fq_params = [], fq_body = [], fq_headers = [], fq_uri = ''/'',
                     fq_keep = (byte_val (c ! 2) AND 1 \<noteq> 0)\<rparr>, [], False))
      else (case st of
        None \<Rightarrow> Inl (ValueError ''FastCGI record without begin request'')
      | Some q \<Rightarrow>
          if t = 4 then res_bind (fcgi_params_record u max_request q c) (\<lambda>q. Inr (Some q, [], False))
          else if t = 5 then
            (if c \<noteq> [] then
               (if length (fq_body q) + length c > max_request
                then Inl (ValueError ''FastCGI body too large'')
                else Inr (Some (q\<lparr>fq_body := fq_body q @ c\<rparr>), [], False))
             else
               res_bind (response_plan u (Str (select_mode u (Bytes (fq_uri q)) (fq_headers q))) False
                 (fq_body q)) (\<lambda>p.
               res_bind (fcgi_response i p) (\<lambda>out.
               Inr (None, out, plan_close_early p \<or> \<not> fq_keep q))))
          else Inr (if t = 2 then None else st, [], False)))"

function fcgi_serve :: "unicode \<Rightarrow> nat \<Rightarrow> fcgi_requests \<Rightarrow> bytes \<Rightarrow> bool res \<times> bytes" where
  "fcgi_serve u max_request requests d =
     (case record_of d of
        Inl e \<Rightarrow> (Inl e, [])
      | Inr ((t, i, c, p), d') \<Rightarrow>
          (case fcgi_transition u max_request i (requests i) t c of
             Inl e \<Rightarrow> (Inl e, [])
           | Inr (st, out, close) \<Rightarrow>
               if close then (Inr True, out)
               else (case fcgi_serve u max_request (requests(i := st)) d' of (r, out') \<Rightarrow> (r, out @ out'))))"
  by pat_completeness auto
termination
  by (relation "measure (\<lambda>(u, m, q, d). length d)")
    (auto simp: record_of_def Let_def split: if_splits)

declare fcgi_serve.simps [simp del]

lemma fcgi_respond_takes:
  assumes "takes_all s"
  shows "case res_bind (response_plan u (Str m) False body) (\<lambda>p. res_bind (fcgi_response i p)
              (\<lambda>out. Inr (out, plan_close_early p \<or> \<not> keep))) of
      Inl e \<Rightarrow> fcgi_respond u i m body keep s = (Inl e, s)
    | Inr (out, close) \<Rightarrow> \<exists>s'. fcgi_respond u i m body keep s = (Inr close, s')
        \<and> tx s' = tx s @ out \<and> rx s' = rx s \<and> takes_all s' \<and> timeout s' = timeout s"
proof (cases "response_plan u (Str m) False body")
  case (Inr p)
  show ?thesis
  proof (cases "fcgi_response i p")
    case (Inr out)
    obtain s' where "send_data out (plan_partial p) s = (Inr (), s')" "tx s' = tx s @ out"
      "rx s' = rx s" "takes_all s'" "timeout s' = timeout s" by (rule send_data_takes [OF assms])
    with \<open>response_plan u (Str m) False body = Inr p\<close> Inr show ?thesis
      by (simp add: fcgi_respond_def)
  qed (simp add: fcgi_respond_def \<open>response_plan u (Str m) False body = Inr p\<close> io_bind_def)
qed (simp add: fcgi_respond_def io_bind_def)

lemma fcgi_dispatch_takes:
  assumes "takes_all s"
  shows "case fcgi_transition u max_request i (requests i) t c of
      Inl e \<Rightarrow> fcgi_dispatch u max_request requests (t, i, c) s = (Inl e, s)
    | Inr (st, out, close) \<Rightarrow> \<exists>s'. fcgi_dispatch u max_request requests (t, i, c) s =
          (Inr (if close then None else Some (requests(i := st))), s')
        \<and> tx s' = tx s @ out \<and> rx s' = rx s \<and> takes_all s' \<and> timeout s' = timeout s"
proof -
  have upd: "requests(i := requests i) = requests" by simp
  show ?thesis
  proof (cases "t = 5 \<and> c = [] \<and> requests i \<noteq> None")
    case True
    then obtain q where q: "requests i = Some q" by auto
    let ?m = "select_mode u (Bytes (fq_uri q)) (fq_headers q)"
    from fcgi_respond_takes [OF assms, where u = u and m = ?m and body = "fq_body q" and i = i and keep = "fq_keep q"] True q show ?thesis
      by (cases "response_plan u (Str ?m) False (fq_body q)"; cases "fcgi_response i (projr (response_plan u (Str ?m) False (fq_body q)))")
        (auto simp: fcgi_transition_def fcgi_dispatch_def io_bind_def io_return_def)
  next
    case False
    with assms upd show ?thesis
      by (auto simp: fcgi_transition_def fcgi_dispatch_def fcgi_begin_def io_bind_def io_lift_def
          io_return_def io_raise_def res_bind_def split: option.splits sum.splits)
  qed
qed

lemma fcgi_loop_peer:
  "peer_sends s d \<Longrightarrow> takes_all s \<Longrightarrow>
     \<exists>s'. fcgi_loop u max_request requests s = (fst (fcgi_serve u max_request requests d), s')
       \<and> tx s' = tx s @ snd (fcgi_serve u max_request requests d) \<and> timeout s' = timeout s"
proof (induction "length d" arbitrary: d s requests rule: less_induct)
  case less
  from read_record_peer [OF less.prems(1)] obtain s1 where o: "out_side s1 = out_side s"
    and r: "case record_of d of Inl e \<Rightarrow> read_record s = (Inl e, s1)
     | Inr ((t, i, c, p), d') \<Rightarrow> read_record s = (Inr (t, i, c), s1) \<and> peer_sends s1 d'" by blast
  have t1: "takes_all s1" using less.prems(2) o takes_all_cong [of s1 s] by (simp add: out_side_eq)
  show ?case
  proof (cases "record_of d")
    case (Inl e)
    with r o show ?thesis
      by (simp add: fcgi_loop.simps [of _ _ _ s] fcgi_serve.simps [of _ _ _ d] out_side_eq)
  next
    case (Inr x)
    then obtain t i c p d' where x: "record_of d = Inr ((t, i, c, p), d')" by (cases x) auto
    with r have r: "read_record s = (Inr (t, i, c), s1)" "peer_sends s1 d'" by auto
    have d': "length d' < length d"
      using x by (auto simp: record_of_def Let_def split: if_splits)
    note step = fcgi_dispatch_takes [OF t1, where u = u and max_request = max_request and i = i and requests = requests and t = t and c = c]
    show ?thesis
    proof (cases "fcgi_transition u max_request i (requests i) t c")
      case (Inl e)
      with r(1) x step o show ?thesis
        by (simp add: fcgi_loop.simps [of _ _ _ s] fcgi_serve.simps [of _ _ _ d] out_side_eq)
    next
      case (Inr y)
      then obtain st out close where
        y: "fcgi_transition u max_request i (requests i) t c = Inr (st, out, close)" by (cases y) auto
      with step obtain s2 where s2: "fcgi_dispatch u max_request requests (t, i, c) s1 =
          (Inr (if close then None else Some (requests(i := st))), s2)" "tx s2 = tx s1 @ out"
        "rx s2 = rx s1" "takes_all s2" "timeout s2 = timeout s1" by auto
      have p2: "peer_sends s2 d'" using r(2) peer_sends_cong [OF s2(3)] by simp
      show ?thesis
      proof (cases close)
        case True
        with r(1) x y s2 o show ?thesis
          by (simp add: fcgi_loop.simps [of _ _ _ s] fcgi_serve.simps [of _ _ _ d] out_side_eq)
      next
        case False
        from less.hyps [OF d' p2 s2(4), of "requests(i := st)"] False r(1) x y s2 o show ?thesis
          by (auto simp: fcgi_loop.simps [of _ _ _ s] fcgi_serve.simps [of _ _ _ d] out_side_eq
              split: prod.splits)
      qed
    qed
  qed
qed

section \<open>A whole request\<close>

definition begin_body :: "bool \<Rightarrow> bytes" where
  "begin_body keep = map mk_byte [0, 1, if keep then 1 else 0, 0, 0, 0, 0, 0]"

text \<open>What a client sends for one request, with its parameters and its body in pieces.\<close>

definition fcgi_client :: "nat \<Rightarrow> bool \<Rightarrow> bytes list \<Rightarrow> bytes list \<Rightarrow> fcgi_rec list" where
  "fcgi_client i keep ps bs =
     (1, i, begin_body keep, []) # map (\<lambda>c. (4, i, c, [])) ps @ (4, i, [], [])
       # map (\<lambda>c. (5, i, c, [])) bs @ [(5, i, [], [])]"

definition enc_recs :: "fcgi_rec list \<Rightarrow> bytes" where
  "enc_recs rs = concat (map enc_rec rs)"

definition chunk_ok :: "bytes \<Rightarrow> bool" where
  "chunk_ok c \<longleftrightarrow> c \<noteq> [] \<and> length c < 65536"

text \<open>The records of an answer.\<close>

definition answer_recs :: "nat \<Rightarrow> plan \<Rightarrow> fcgi_rec list" where
  "answer_recs i p =
     (6, i, plan_wire p, []) #
       (if plan_close_early p then [] else [(6, i, [], []), (3, i, replicate 8 (mk_byte 0), [])])"

lemma enc_recs_simps [simp]:
  "enc_recs [] = []" "enc_recs (r # rs) = enc_rec r @ enc_recs rs"
  "enc_recs (rs @ rs') = enc_recs rs @ enc_recs rs'"
  by (simp_all add: enc_recs_def)

lemma answer_recs_ok:
  "0 < i \<Longrightarrow> i < 65536 \<Longrightarrow> length (plan_wire p) < 65536 \<Longrightarrow> list_all rec_ok (answer_recs i p)"
  by (simp add: answer_recs_def rec_ok_def)

lemma fcgi_response_recs:
  assumes "0 < i" "i < 65536"
  shows "fcgi_response i p =
    (if length (plan_wire p) < 65536 then Inr (enc_recs (answer_recs i p))
     else Inl (ValueError ''FastCGI record too large''))"
proof (cases "length (plan_wire p) < 65536")
  case True
  with assms have "rec_ok (6, i, plan_wire p, [])" "rec_ok (6, i, [], [])"
    "rec_ok (3, i, replicate 8 (mk_byte 0), [])" by (simp_all add: rec_ok_def)
  note this [THEN fcgi_record_enc]
  with True show ?thesis by (simp add: fcgi_response_def answer_recs_def)
next
  case False
  then show ?thesis by (simp add: fcgi_response_def fcgi_record_large)
qed

lemma fcgi_serve_rec:
  assumes "rec_ok (t, i, c, p)"
  shows "fcgi_serve u max_request requests (enc_rec (t, i, c, p) @ d) =
    (case fcgi_transition u max_request i (requests i) t c of
       Inl e \<Rightarrow> (Inl e, [])
     | Inr (st, out, close) \<Rightarrow>
         if close then (Inr True, out)
         else (case fcgi_serve u max_request (requests(i := st)) d of (r, out') \<Rightarrow> (r, out @ out')))"
  by (subst fcgi_serve.simps) (simp add: record_of_enc [OF assms])

lemma fcgi_serve_params:
  "list_all chunk_ok cs \<Longrightarrow> 0 < i \<Longrightarrow> i < 65536 \<Longrightarrow> requests i = Some q \<Longrightarrow>
   length (fq_params q) + length (concat cs) \<le> max_request \<Longrightarrow>
   fcgi_serve u max_request requests (enc_recs (map (\<lambda>c. (4, i, c, [])) cs) @ d) =
     fcgi_serve u max_request (requests(i \<mapsto> q\<lparr>fq_params := fq_params q @ concat cs\<rparr>)) d"
proof (induction cs arbitrary: requests q)
  case Nil
  then have "requests(i \<mapsto> q) = requests" by auto
  then show ?case by simp
next
  case (Cons c cs)
  let ?q = "q\<lparr>fq_params := fq_params q @ c\<rparr>"
  have "rec_ok (4, i, c, [])" using Cons.prems by (simp add: rec_ok_def chunk_ok_def)
  note step = fcgi_serve_rec [OF this, of u max_request requests]
  have "fcgi_serve u max_request requests (enc_recs (map (\<lambda>c. (4, i, c, [])) (c # cs)) @ d) =
      fcgi_serve u max_request (requests(i \<mapsto> ?q)) (enc_recs (map (\<lambda>c. (4, i, c, [])) cs) @ d)"
    using Cons.prems by (simp add: step fcgi_transition_def fcgi_params_record_def chunk_ok_def)
  also have "\<dots> = fcgi_serve u max_request
      (requests(i \<mapsto> ?q, i \<mapsto> ?q\<lparr>fq_params := fq_params ?q @ concat cs\<rparr>)) d"
    using Cons.prems by (intro Cons.IH) simp_all
  also have "requests(i \<mapsto> ?q, i \<mapsto> ?q\<lparr>fq_params := fq_params ?q @ concat cs\<rparr>) =
      requests(i \<mapsto> q\<lparr>fq_params := fq_params q @ concat (c # cs)\<rparr>)"
    by (rule ext) simp
  finally show ?case .
qed

lemma fcgi_serve_body:
  "list_all chunk_ok cs \<Longrightarrow> 0 < i \<Longrightarrow> i < 65536 \<Longrightarrow> requests i = Some q \<Longrightarrow>
   length (fq_body q) + length (concat cs) \<le> max_request \<Longrightarrow>
   fcgi_serve u max_request requests (enc_recs (map (\<lambda>c. (5, i, c, [])) cs) @ d) =
     fcgi_serve u max_request (requests(i \<mapsto> q\<lparr>fq_body := fq_body q @ concat cs\<rparr>)) d"
proof (induction cs arbitrary: requests q)
  case Nil
  then have "requests(i \<mapsto> q) = requests" by auto
  then show ?case by simp
next
  case (Cons c cs)
  let ?q = "q\<lparr>fq_body := fq_body q @ c\<rparr>"
  have "rec_ok (5, i, c, [])" using Cons.prems by (simp add: rec_ok_def chunk_ok_def)
  note step = fcgi_serve_rec [OF this, of u max_request requests]
  have "fcgi_serve u max_request requests (enc_recs (map (\<lambda>c. (5, i, c, [])) (c # cs)) @ d) =
      fcgi_serve u max_request (requests(i \<mapsto> ?q)) (enc_recs (map (\<lambda>c. (5, i, c, [])) cs) @ d)"
    using Cons.prems by (simp add: step fcgi_transition_def chunk_ok_def)
  also have "\<dots> = fcgi_serve u max_request
      (requests(i \<mapsto> ?q, i \<mapsto> ?q\<lparr>fq_body := fq_body ?q @ concat cs\<rparr>)) d"
    using Cons.prems by (intro Cons.IH) simp_all
  also have "requests(i \<mapsto> ?q, i \<mapsto> ?q\<lparr>fq_body := fq_body ?q @ concat cs\<rparr>) =
      requests(i \<mapsto> q\<lparr>fq_body := fq_body q @ concat (c # cs)\<rparr>)"
    by (rule ext) simp
  finally show ?case .
qed

text \<open>The variables a parameter stream of these pairs sets.\<close>

definition fcgi_env :: "(bytes \<times> bytes) list \<Rightarrow> headers" where
  "fcgi_env ps = foldl (\<lambda>r (n, v). AList.update (latin1 n) v r) [] ps"

definition env_mode :: "unicode \<Rightarrow> headers \<Rightarrow> pystr" where
  "env_mode u env =
     select_mode u (Bytes (header_get ''REQUEST_URI'' ''/'' env)) (cgi_headers u [] env)"

lemma fcgi_params_env: "list_all pair_ok vars \<Longrightarrow> fcgi_params (concat (map enc_pair vars)) = Inr (fcgi_env vars)"
  using fcgi_params_pairs [of vars "[]" "[]"] by (simp add: fcgi_params_def fcgi_env_def)

lemma fcgi_serve_request:
  assumes i: "0 < i" "i < 65536" "requests i = None"
    and ps: "list_all chunk_ok ps" "concat ps = concat (map enc_pair vars)" "list_all pair_ok vars"
    and bs: "list_all chunk_ok bs"
    and len: "length (concat ps) \<le> max_request" "length (concat bs) \<le> max_request"
    and p: "response_plan u (Str (env_mode u (fcgi_env vars))) False (concat bs) = Inr p"
    and fits: "length (plan_wire p) < 65536"
  shows "fcgi_serve u max_request requests (enc_recs (fcgi_client i keep ps bs) @ rest) =
    (if plan_close_early p \<or> \<not> keep then (Inr True, enc_recs (answer_recs i p))
     else (case fcgi_serve u max_request requests rest of
             (r, out) \<Rightarrow> (r, enc_recs (answer_recs i p) @ out)))"
proof -
  let ?S = "fcgi_serve u max_request"
  let ?q0 = "\<lparr>fq_params = [], fq_body = [], fq_headers = [], fq_uri = ''/'', fq_keep = keep\<rparr>"
  let ?q1 = "?q0\<lparr>fq_params := concat ps\<rparr>"
  let ?env = "fcgi_env vars"
  let ?q2 = "?q1\<lparr>fq_uri := header_get ''REQUEST_URI'' ''/'' ?env, fq_headers := cgi_headers u [] ?env\<rparr>"
  let ?q3 = "?q2\<lparr>fq_body := concat bs\<rparr>"
  have ok: "rec_ok (1, i, begin_body keep, [])" "rec_ok (4, i, [], [])" "rec_ok (5, i, [], [])"
    using i by (simp_all add: rec_ok_def begin_body_def)
  have keep: "(byte_val (begin_body keep ! 2) AND 1 \<noteq> 0) = keep" "length (begin_body keep) = 8"
    by (simp_all add: begin_body_def)
  have "?S requests (enc_recs (fcgi_client i keep ps bs) @ rest) =
      ?S (requests(i \<mapsto> ?q0)) (enc_recs (map (\<lambda>c. (4, i, c, [])) ps) @ enc_rec (4, i, [], [])
        @ enc_recs (map (\<lambda>c. (5, i, c, [])) bs) @ enc_rec (5, i, [], []) @ rest)"
    using i(3) keep by (simp add: fcgi_client_def fcgi_serve_rec [OF ok(1)] fcgi_transition_def
        del: One_nat_def)
  also have "\<dots> = ?S (requests(i \<mapsto> ?q1)) (enc_rec (4, i, [], [])
        @ enc_recs (map (\<lambda>c. (5, i, c, [])) bs) @ enc_rec (5, i, [], []) @ rest)"
    using i ps(1) len(1) by (subst fcgi_serve_params [where q = ?q0]) simp_all
  also have "\<dots> = ?S (requests(i \<mapsto> ?q2)) (enc_recs (map (\<lambda>c. (5, i, c, [])) bs) @ enc_rec (5, i, [], []) @ rest)"
    using fcgi_params_env [OF ps(3)]
    by (simp add: fcgi_serve_rec [OF ok(2)] fcgi_transition_def fcgi_params_record_def ps(2))
  also have "\<dots> = ?S (requests(i \<mapsto> ?q3)) (enc_rec (5, i, [], []) @ rest)"
    using i bs len(2) by (subst fcgi_serve_body [where q = ?q2]) simp_all
  also have "\<dots> = (if plan_close_early p \<or> \<not> keep then (Inr True, enc_recs (answer_recs i p))
     else (case ?S (requests(i := None)) rest of (r, out) \<Rightarrow> (r, enc_recs (answer_recs i p) @ out)))"
    using p fits i(1,2) by (simp add: fcgi_serve_rec [OF ok(3)] fcgi_transition_def
        fcgi_response_recs env_mode_def)
  finally show ?thesis using i(3) by (simp add: fun_upd_idem)
qed

section \<open>Requests do not see each other\<close>

fun rec_id :: "fcgi_rec \<Rightarrow> nat" where
  "rec_id (t, i, c, p) = i"

lemma rec_id_ok: "rec_ok r \<Longrightarrow> 0 < rec_id r \<and> rec_id r < 65536"
  by (cases r) (simp add: rec_ok_def)

lemma take_length_error: "take_length data offset = Inl e \<Longrightarrow> e = fcgi_truncated"
  by (auto simp: take_length_def split: if_splits)

lemma fcgi_params_error: "fcgi_params_loop data offset result = Inl e \<Longrightarrow> e = fcgi_truncated"
proof (induction data offset result rule: fcgi_params_loop.induct)
  case (1 data offset result)
  show ?case
    using "1.prems" "1.IH"
    by (subst (asm) fcgi_params_loop.simps)
      (auto simp: Let_def dest: take_length_error split: if_splits sum.splits)
qed

text \<open>A record never reports the end of the stream, and answers in records of its own id.\<close>

lemma fcgi_transition_error:
  assumes "fcgi_transition u max_request i st t c = Inl e" "0 < i" "i < 65536"
  shows "e \<noteq> EOFError"
proof (cases "t = 5 \<and> c = []")
  case True
  then show ?thesis
    using assms response_plan_ok [of u "Str m" False b for m b]
    by (auto simp: fcgi_transition_def fcgi_response_recs res_bind_def split: option.splits sum.splits if_splits)
      (metis Inl_Inr_False response_plan_ok)
next
  case False
  then show ?thesis using assms(1)
    by (auto simp: fcgi_transition_def fcgi_params_record_def res_bind_def fcgi_params_def fcgi_truncated_def
        dest!: fcgi_params_error split: option.splits sum.splits if_splits)
qed

lemma fcgi_transition_out:
  assumes "fcgi_transition u max_request i st t c = Inr (st', out, close)" "0 < i" "i < 65536"
  obtains rs where "out = enc_recs rs" "list_all rec_ok rs" "list_all (\<lambda>r. rec_id r = i) rs"
proof (cases "out = []")
  case True
  then show ?thesis by (intro that [of "[]"]) simp_all
next
  case False
  with assms obtain p where "out = enc_recs (answer_recs i p)" "length (plan_wire p) < 65536"
    by (auto simp: fcgi_transition_def fcgi_response_recs split: option.splits if_splits)
  with assms(2,3) show ?thesis
    by (intro that [of "answer_recs i p"] answer_recs_ok) (simp_all add: answer_recs_def)
qed

lemma record_of_Nil: "record_of [] = Inl EOFError"
  by (simp add: record_of_def)

lemma fcgi_serve_isolated:
  "list_all rec_ok rs \<Longrightarrow> fcgi_serve u m requests (enc_recs rs) = (Inl EOFError, out) \<Longrightarrow>
   requests' i = requests i \<Longrightarrow>
   \<exists>outs. out = enc_recs outs \<and> list_all rec_ok outs \<and>
     fcgi_serve u m requests' (enc_recs (filter (\<lambda>r. rec_id r = i) rs)) =
       (Inl EOFError, enc_recs (filter (\<lambda>r. rec_id r = i) outs))"
proof (induction rs arbitrary: requests requests' out)
  case Nil
  then show ?case by (intro exI [of _ "[]"]) (simp add: fcgi_serve.simps [of _ _ _ "[]"] record_of_Nil)
next
  case (Cons r rs)
  obtain t j c p where r: "r = (t, j, c, p)" by (cases r)
  with Cons.prems have ok: "rec_ok (t, j, c, p)" "list_all rec_ok rs" "0 < j" "j < 65536"
    using rec_id_ok [of r] by simp_all
  note step = fcgi_serve_rec [OF ok(1), of u m]
  have "\<exists>st o1 out'. fcgi_transition u m j (requests j) t c = Inr (st, o1, False)
      \<and> fcgi_serve u m (requests(j := st)) (enc_recs rs) = (Inl EOFError, out') \<and> out = o1 @ out'"
    using Cons.prems(2) fcgi_transition_error [OF _ ok(3,4)]
    by (auto simp: r step split: sum.splits prod.splits if_splits)
  then obtain st o1 out' where
    tr: "fcgi_transition u m j (requests j) t c = Inr (st, o1, False)"
    and rest: "fcgi_serve u m (requests(j := st)) (enc_recs rs) = (Inl EOFError, out')"
    and out: "out = o1 @ out'" by blast
  from fcgi_transition_out [OF tr ok(3,4)] obtain os where
    os: "o1 = enc_recs os" "list_all rec_ok os" "list_all (\<lambda>r. rec_id r = j) os" .
  show ?case
  proof (cases "j = i")
    case True
    have "(requests'(j := st)) i = (requests(j := st)) i" using True by simp
    from Cons.IH [where requests' = "requests'(j := st)", OF ok(2) rest this]
    obtain outs where o: "out' = enc_recs outs" "list_all rec_ok outs"
      "fcgi_serve u m (requests'(j := st)) (enc_recs (filter (\<lambda>r. rec_id r = i) rs)) =
         (Inl EOFError, enc_recs (filter (\<lambda>r. rec_id r = i) outs))" by blast
    have "filter (\<lambda>r. rec_id r = i) os = os"
      using os(3) True by (simp add: list_all_iff)
    with o os out tr True Cons.prems(3) show ?thesis
      by (intro exI [of _ "os @ outs"]) (simp add: r step [unfolded True])
  next
    case False
    have "requests' i = (requests(j := st)) i" using False Cons.prems(3) by simp
    from Cons.IH [where requests' = requests', OF ok(2) rest this]
    obtain outs where o: "out' = enc_recs outs" "list_all rec_ok outs"
      "fcgi_serve u m requests' (enc_recs (filter (\<lambda>r. rec_id r = i) rs)) =
         (Inl EOFError, enc_recs (filter (\<lambda>r. rec_id r = i) outs))" by blast
    have "filter (\<lambda>r. rec_id r = i) os = []"
      using os(3) False by (auto simp: list_all_iff filter_empty_conv)
    with o os out False show ?thesis
      by (intro exI [of _ "os @ outs"]) (simp add: r)
  qed
qed

text \<open>
  Records that leave the connection open are a prefix: what comes behind them is served from the
  state they leave, in which the ids they do not mention are as before.
\<close>

lemma fcgi_serve_prefix:
  "list_all rec_ok rs \<Longrightarrow> fcgi_serve u m requests (enc_recs rs) = (Inl EOFError, out) \<Longrightarrow>
   \<exists>q. (\<forall>j. list_all (\<lambda>r. rec_id r \<noteq> j) rs \<longrightarrow> q j = requests j)
     \<and> (\<forall>d. fcgi_serve u m requests (enc_recs rs @ d) =
          (case fcgi_serve u m q d of (r, o') \<Rightarrow> (r, out @ o')))"
proof (induction rs arbitrary: requests out)
  case Nil
  then show ?case
    by (intro exI [of _ requests]) (simp add: fcgi_serve.simps [of _ _ _ "[]"] record_of_Nil split_beta)
next
  case (Cons r rs)
  obtain t j c p where r: "r = (t, j, c, p)" by (cases r)
  with Cons.prems have ok: "rec_ok (t, j, c, p)" "list_all rec_ok rs" "0 < j" "j < 65536"
    using rec_id_ok [of r] by simp_all
  note step = fcgi_serve_rec [OF ok(1), of u m]
  have "\<exists>st o1 out'. fcgi_transition u m j (requests j) t c = Inr (st, o1, False)
      \<and> fcgi_serve u m (requests(j := st)) (enc_recs rs) = (Inl EOFError, out') \<and> out = o1 @ out'"
    using Cons.prems(2) fcgi_transition_error [OF _ ok(3,4)]
    by (auto simp: r step split: sum.splits prod.splits if_splits)
  then obtain st o1 out' where
    tr: "fcgi_transition u m j (requests j) t c = Inr (st, o1, False)"
    and rest: "fcgi_serve u m (requests(j := st)) (enc_recs rs) = (Inl EOFError, out')"
    and out: "out = o1 @ out'" by blast
  from Cons.IH [OF ok(2) rest] obtain q where
    q: "\<forall>k. list_all (\<lambda>r. rec_id r \<noteq> k) rs \<longrightarrow> q k = (requests(j := st)) k"
    "\<forall>d. fcgi_serve u m (requests(j := st)) (enc_recs rs @ d) =
       (case fcgi_serve u m q d of (r, o') \<Rightarrow> (r, out' @ o'))" by blast
  show ?case
    using q tr out by (intro exI [of _ q]) (auto simp: r step split: prod.splits)
qed

section \<open>What fits a record\<close>

lemma fcgi_answer_size:
  assumes "m \<in> set MODE_NAMES" "response_plan u (Str m) False body = Inr p"
  shows "length (plan_wire p) < 65536 \<longleftrightarrow> \<not> (m = latin1 ''upgrade'' \<and> 65456 < length body)"
proof -
  have len: "length backend_body = 11" by (simp add: backend_body_def)
  then have "show_nat 11 = ''11''" using backend_body_length by simp
  from assms show ?thesis using len \<open>show_nat 11 = ''11''\<close>
    by (cases rule: mode_cases)
      (auto simp: response_plan_def plan_of_def header_bytes_def status_line_def normal_response_def
        interim_blocks_def backend_body_length crlf_def MAX_REQUEST_def min_def MODE_NAMES_def split: if_splits)
qed

section \<open>Properties\<close>

text \<open>C21: name/value pairs with names and values of any length below 2^31, in the one-byte or
  the four-byte form \<open>_fcgi_length\<close> writes, are read back by \<open>_fcgi_params\<close> as the mapping
  in which a later pair of a name replaces an earlier one.\<close>

theorem fcgi_params_round_trip:
  assumes "list_all (\<lambda>(n, v). length n < 2 ^ 31 \<and> length v < 2 ^ 31) ps"
  shows "\<exists>ds. res_map (\<lambda>(n, v). res_bind (fcgi_length (length n)) (\<lambda>a.
             res_bind (fcgi_length (length v)) (\<lambda>b. Inr (a @ b @ n @ v)))) ps = Inr ds
    \<and> fcgi_params (concat ds) = Inr (foldl (\<lambda>r (n, v). AList.update (latin1 n) v r) [] ps)"
proof -
  have ok: "list_all pair_ok ps" using assms by (auto simp: pair_ok_def list_all_iff)
  then have "res_map (\<lambda>(n, v). res_bind (fcgi_length (length n)) (\<lambda>a.
      res_bind (fcgi_length (length v)) (\<lambda>b. Inr (a @ b @ n @ v)))) ps = Inr (map enc_pair ps)"
    by (induction ps) (auto simp: pair_ok_def fcgi_length_bytes enc_pair_def)
  with fcgi_params_env [OF ok] show ?thesis by (auto simp: fcgi_env_def)
qed

lemma fcgi_params_round_trip_witness:
  "\<exists>ds. fcgi_params (concat ds) = Inr [(latin1 ''A'', replicate 200 (CHR ''x'')), (latin1 ''B'', [])]"
  using fcgi_params_round_trip [of "[(''A'', ''1''), (''B'', []), (''A'', replicate 200 (CHR ''x''))]"]
  by auto

text \<open>C22: \<open>handle_fastcgi\<close> is a function of the client's byte stream, however the network
  cuts it, as long as the client takes what is sent: \<open>fcgi_serve\<close>, which reads record after
  record and lets each one act on the request of its id only. It always ends, with an error or
  with the result that closes the connection, after the answers of the requests before.\<close>

theorem handle_fastcgi_refines:
  assumes "peer_sends s d" "takes_all s"
  shows "\<exists>s'. handle_fastcgi u max_request s = (fst (fcgi_serve u max_request (\<lambda>_. None) d), s')
    \<and> tx s' = tx s @ snd (fcgi_serve u max_request (\<lambda>_. None) d) \<and> timeout s' = timeout s"
  unfolding handle_fastcgi_def by (rule fcgi_loop_peer [OF assms])

text \<open>A connection that closes in the middle of a record header.\<close>

lemma handle_fastcgi_refines_witness:
  "\<exists>s'. handle_fastcgi plain_unicode MAX_REQUEST
      \<lparr>rx = [Chunk ''ab'', Chunk ''c''], tx = ''before'', accepts = [], timeout = 5\<rparr>
    = (Inl EOFError, s') \<and> tx s' = ''before''"
proof -
  let ?s = "\<lparr>rx = [Chunk ''ab'', Chunk ''c''], tx = ''before'', accepts = [], timeout = 5\<rparr>"
  have p: "peer_sends ?s ''abc''" "takes_all ?s"
    by (auto simp: peer_sends_def takes_all_def intro!: exI [of _ "[''ab'', ''c'']"])
  have "fcgi_serve plain_unicode MAX_REQUEST (\<lambda>_. None) ''abc'' = (Inl EOFError, [])"
    by (simp add: fcgi_serve.simps record_of_def)
  with handle_fastcgi_refines [OF p, of plain_unicode MAX_REQUEST] show ?thesis by auto
qed

text \<open>C23: on any connection \<open>handle_fastcgi\<close> serves, after any records of other requests
  that leave the connection open (and may leave requests open), a request sent as begin,
  parameters and body in pieces of any size, within the limits, is answered with one STDOUT
  record that carries the plan of the mode its variables select, then (unless the mode closes
  early) the end of STDOUT and END_REQUEST; the connection ends there exactly when the client did
  not ask to keep it or the mode closes it, and otherwise what follows is served as if the
  request had never been there.\<close>

theorem fcgi_request_answered:
  assumes "0 < i" "i < 65536" "list_all rec_ok rs" "list_all (\<lambda>r. rec_id r \<noteq> i) rs"
    and "list_all chunk_ok ps" "concat ps = concat (map enc_pair vars)" "list_all pair_ok vars"
    and "list_all chunk_ok bs"
    and "length (concat ps) \<le> max_request" "length (concat bs) \<le> max_request"
    and "response_plan u (Str (env_mode u (fcgi_env vars))) False (concat bs) = Inr p"
    and "length (plan_wire p) < 65536"
    and "peer_sends before (enc_recs rs)" "takes_all before" "handle_fastcgi u max_request before = (Inl EOFError, before')"
    and "peer_sends without (enc_recs rs @ rest)" "takes_all without" "tx without = tx before"
      "handle_fastcgi u max_request without = (result, without')"
    and "peer_sends conn (enc_recs (rs @ fcgi_client i keep ps bs) @ rest)" "takes_all conn" "tx conn = tx before"
  shows "\<exists>more conn'. tx without' = tx before' @ more
    \<and> (if plan_close_early p \<or> \<not> keep
       then handle_fastcgi u max_request conn = (Inr True, conn') \<and> tx conn' = tx before' @ enc_recs (answer_recs i p)
       else handle_fastcgi u max_request conn = (result, conn') \<and> tx conn' = tx before' @ enc_recs (answer_recs i p) @ more)"
proof -
  let ?S = "fcgi_serve u max_request"
  note peer = fcgi_loop_peer [where u = u and max_request = max_request and requests = "\<lambda>_. None", folded handle_fastcgi_def]
  obtain out where out: "?S (\<lambda>_. None) (enc_recs rs) = (Inl EOFError, out)" "tx before' = tx before @ out"
    using peer [OF assms(13,14)] assms(15) by (cases "?S (\<lambda>_. None) (enc_recs rs)") auto
  from fcgi_serve_prefix [OF assms(3) out(1)] obtain q where
    q: "q i = None" and d: "?S (\<lambda>_. None) (enc_recs rs @ d) = (case ?S q d of (r, o') \<Rightarrow> (r, out @ o'))" for d
    using assms(4) by force
  obtain r more where m: "?S q rest = (r, more)" by (cases "?S q rest")
  from peer [OF assms(16,17)] assms(18,19) out(2) have w: "result = r" "tx without' = tx before' @ more"
    by (auto simp: d m)
  have "?S q (enc_recs (fcgi_client i keep ps bs) @ rest) =
      (if plan_close_early p \<or> \<not> keep then (Inr True, enc_recs (answer_recs i p))
       else (r, enc_recs (answer_recs i p) @ more))"
    using fcgi_serve_request [where requests = q and i = i, OF assms(1,2) q assms(5-12), of keep rest]
    by (simp add: m)
  then have "?S (\<lambda>_. None) (enc_recs (rs @ fcgi_client i keep ps bs) @ rest) =
      (if plan_close_early p \<or> \<not> keep then (Inr True, out @ enc_recs (answer_recs i p))
       else (r, out @ enc_recs (answer_recs i p) @ more))"
    using d [of "enc_recs (fcgi_client i keep ps bs) @ rest"] by simp
  with peer [OF assms(20,21)] assms(22) out(2) w show ?thesis by auto
qed

text \<open>A connection on which the client sends the bytes \<open>d\<close> at once.\<close>

definition client_sock :: "bytes \<Rightarrow> sock" where
  "client_sock d = \<lparr>rx = (if d = [] then [] else [Chunk d]), tx = [], accepts = [], timeout = 5\<rparr>"

lemma client_sock_ok: "peer_sends (client_sock d) d" "takes_all (client_sock d)" "tx (client_sock d) = []"
proof -
  have "peer_sends \<lparr>rx = [Chunk (c # cs)], tx = [], accepts = [], timeout = 5\<rparr> (c # cs)" for c cs
    by (auto simp: peer_sends_def intro!: exI [of _ "[c # cs]"])
  moreover have "peer_sends \<lparr>rx = [], tx = [], accepts = [], timeout = 5\<rparr> []"
    by (auto simp: peer_sends_def intro!: exI [of _ "[]"])
  ultimately show "peer_sends (client_sock d) d"
    by (cases d) (simp_all add: client_sock_def)
  show "takes_all (client_sock d)" "tx (client_sock d) = []"
    by (simp_all add: client_sock_def takes_all_def)
qed

text \<open>A request behind one that another request id has only begun.\<close>

lemma fcgi_request_answered_witness:
  "\<exists>p s'. handle_fastcgi plain_unicode MAX_REQUEST
      (client_sock (enc_recs ([(1, 3, begin_body True, [])] @ fcgi_client 7 False [] [''bo'', ''dy'']) @ []))
    = (Inr True, s') \<and> tx s' = enc_recs (answer_recs 7 p)"
proof -
  let ?rs = "[(1, 3, begin_body True, [])]"
  obtain p where p: "response_plan plain_unicode (Str (env_mode plain_unicode (fcgi_env []))) False
      (concat [''bo'', ''dy'']) = Inr p"
    by (rule response_plan_ok)
  have fits: "length (plan_wire p) < 65536"
    using fcgi_answer_size [OF _ p] by (simp add: env_mode_def select_mode_known_aux)
  have ok: "rec_ok (1, 3, begin_body True, [])" by (simp add: rec_ok_def begin_body_def)
  have len: "length (begin_body True) = 8" by (simp add: begin_body_def)
  have "fcgi_serve plain_unicode MAX_REQUEST (\<lambda>_. None) (enc_recs ?rs @ []) = (Inl EOFError, [])"
    using fcgi_serve_rec [OF ok, where d = "[]"] len
    by (simp add: fcgi_transition_def fcgi_serve.simps [of _ _ _ "[]"] record_of_Nil del: One_nat_def)
  with fcgi_loop_peer [OF client_sock_ok(1,2), of plain_unicode MAX_REQUEST "\<lambda>_. None" "enc_recs ?rs @ []",
      folded handle_fastcgi_def]
  obtain s0' where s0: "handle_fastcgi plain_unicode MAX_REQUEST (client_sock (enc_recs ?rs @ [])) = (Inl EOFError, s0')"
    "tx s0' = []" by (auto simp: client_sock_ok(3))
  note ans = fcgi_request_answered [where i = 7 and rs = ?rs and ps = "[]" and vars = "[]"
      and bs = "[''bo'', ''dy'']" and max_request = MAX_REQUEST and u = plain_unicode and p = p
      and before = "client_sock (enc_recs ?rs @ [])" and before' = s0' and without = "client_sock (enc_recs ?rs @ [])"
      and rest = "[]" and keep = False
      and conn = "client_sock (enc_recs (?rs @ fcgi_client 7 False [] [''bo'', ''dy'']) @ [])"]
  have "peer_sends (client_sock (enc_recs ?rs @ [])) (enc_recs ?rs)"
    using client_sock_ok(1) [of "enc_recs ?rs @ []"] by simp
  then show ?thesis
    using ans [OF _ _ _ _ _ _ _ _ _ _ p fits _ client_sock_ok(2) s0(1) client_sock_ok(1,2) refl s0(1)
        client_sock_ok(1,2)] ok s0(2)
    by (auto simp: chunk_ok_def MAX_REQUEST_def client_sock_ok(3) del: One_nat_def)
qed

text \<open>C24: requests multiplexed on one connection do not see each other: when
  \<open>handle_fastcgi\<close> reads a connection of kept-alive requests to its end, the records it answers
  to a request id are, in the same order, the ones it sends on a connection that carries the
  records of this id alone, which it also reads to its end.\<close>

theorem fcgi_requests_isolated:
  assumes "list_all rec_ok rs"
    and "peer_sends s (enc_recs rs)" "takes_all s" "tx s = []"
    and "handle_fastcgi u max_request s = (Inl EOFError, s')"
    and "peer_sends s1 (enc_recs (filter (\<lambda>r. rec_id r = i) rs))" "takes_all s1" "tx s1 = []"
  shows "\<exists>outs s1'. parse_all dec_rec (tx s') = Some outs
    \<and> handle_fastcgi u max_request s1 = (Inl EOFError, s1')
    \<and> parse_all dec_rec (tx s1') = Some (filter (\<lambda>r. rec_id r = i) outs)"
proof -
  note peer = fcgi_loop_peer [where u = u and max_request = max_request and requests = "\<lambda>_. None", folded handle_fastcgi_def]
  obtain out where "fcgi_serve u max_request (\<lambda>_. None) (enc_recs rs) = (Inl EOFError, out)" "tx s' = out"
    using peer [OF assms(2,3)] assms(4,5) by (cases "fcgi_serve u max_request (\<lambda>_. None) (enc_recs rs)") auto
  from fcgi_serve_isolated [OF assms(1) this(1), of "\<lambda>_. None" i] \<open>tx s' = out\<close> obtain outs where
    o: "tx s' = enc_recs outs" "list_all rec_ok outs"
    "fcgi_serve u max_request (\<lambda>_. None) (enc_recs (filter (\<lambda>r. rec_id r = i) rs)) =
      (Inl EOFError, enc_recs (filter (\<lambda>r. rec_id r = i) outs))" by blast
  have "list_all rec_ok (filter (\<lambda>r. rec_id r = i) outs)"
    using o(2) by (simp add: list_all_iff)
  with peer [OF assms(6,7)] assms(8) o fcgi.parse_all_enc show ?thesis
    by (auto simp: enc_recs_def)
qed

lemma fcgi_requests_isolated_witness:
  "\<exists>s1'. handle_fastcgi plain_unicode MAX_REQUEST
      (client_sock (enc_recs [(1, 1, begin_body True, [])])) = (Inl EOFError, s1')
    \<and> parse_all dec_rec (tx s1') = Some []"
proof -
  let ?rs = "[(1, 1, begin_body True, []), (1, 2, begin_body True, [])]"
  have ok: "list_all rec_ok ?rs"
    by (simp add: rec_ok_def begin_body_def)
  then have r: "rec_ok (1, 1, begin_body True, [])" "rec_ok (1, 2, begin_body True, [])" by simp_all
  have "length (begin_body True) = 8" by (simp add: begin_body_def)
  then have s: "fcgi_serve plain_unicode MAX_REQUEST (\<lambda>_. None) (enc_recs ?rs) = (Inl EOFError, [])"
    using fcgi_serve_rec [OF r(2), where d = "[]"]
    by (simp add: fcgi_serve_rec [OF r(1)] fcgi_transition_def fcgi_serve.simps [of _ _ _ "[]"]
        record_of_Nil del: One_nat_def)
  with fcgi_loop_peer [OF client_sock_ok(1,2), of plain_unicode MAX_REQUEST "\<lambda>_. None" "enc_recs ?rs",
      folded handle_fastcgi_def]
  obtain s' where s': "handle_fastcgi plain_unicode MAX_REQUEST (client_sock (enc_recs ?rs)) = (Inl EOFError, s')"
    "tx s' = []" by (auto simp: client_sock_ok(3))
  have one: "enc_recs (filter (\<lambda>r. rec_id r = 1) ?rs) = enc_recs [(1, 1, begin_body True, [])]"
    by (simp del: enc_recs_simps)
  from fcgi_requests_isolated [OF ok client_sock_ok s'(1), of "client_sock (enc_recs [(1, 1, begin_body True, [])])" 1,
      unfolded one, OF client_sock_ok] s'(2)
  show ?thesis by auto
qed

text \<open>C25: every answer fits the single STDOUT record it is sent in, except that an upgrade
  of more than 65456 bytes of body does not: there \<open>fcgi_record\<close> raises and the request is
  never answered, although bodies up to 1 MiB are accepted.\<close>

theorem fcgi_answer_fits:
  assumes "m \<in> set MODE_NAMES" "0 < i" "i < 65536"
  shows "\<exists>p. response_plan u (Str m) False body = Inr p \<and> fcgi_response i p =
    (if m = latin1 ''upgrade'' \<and> 65456 < length body
     then Inl (ValueError ''FastCGI record too large'') else Inr (enc_recs (answer_recs i p)))"
proof -
  obtain p where p: "response_plan u (Str m) False body = Inr p" by (rule response_plan_ok)
  from fcgi_answer_size [OF assms(1) p] fcgi_response_recs [OF assms(2,3), of p] p show ?thesis
    by auto
qed

lemma fcgi_answer_fits_witness:
  "\<exists>p. response_plan plain_unicode (Str (latin1 ''upgrade'')) False (replicate 70000 (CHR ''x'')) = Inr p
     \<and> fcgi_response 1 p = Inl (ValueError ''FastCGI record too large'')"
  using fcgi_answer_fits [of "latin1 ''upgrade''" 1 plain_unicode "replicate 70000 (CHR ''x'')"]
  by (simp add: MODE_NAMES_def)

end
