(* ===== verification/Scgi.thy ===== *)
theory Scgi
  imports Fastcgi
begin

text \<open>
  The SCGI side of backend-responder.py: the netstring of headers, \<open>_parse_scgi_headers\<close> and
  \<open>handle_scgi\<close>. What the handler reads is compared with functions of the whole stream by
  \<open>reads\<close>, a refinement relation that is closed under sequencing.
\<close>

section \<open>_parse_scgi_headers\<close>

fun scgi_pairs :: "headers \<Rightarrow> bytes list \<Rightarrow> headers" where
  "scgi_pairs result (name # value # fs) = scgi_pairs (AList.update (latin1 name) value result) fs"
| "scgi_pairs result _ = result"

definition parse_scgi_headers :: "bytes \<Rightarrow> headers res" where
  "parse_scgi_headers data =
     (let fs = split_on (mk_byte 0) data;
          fs = (if fs \<noteq> [] \<and> last fs = [] then butlast fs else fs)
      in if length fs mod 2 \<noteq> 0 then Inl (ValueError ''invalid SCGI headers'')
         else Inr (scgi_pairs [] fs))"

section \<open>handle_scgi\<close>

function scgi_digits :: "bytes \<Rightarrow> bytes io" where
  "scgi_digits digits s =
     (if length digits < 10 then
        (case recv_exact 1 s of
           (Inl e, s) \<Rightarrow> (Inl e, s)
         | (Inr c, s) \<Rightarrow>
             if c = '':'' then (Inr digits, s)
             else if \<not> (c \<noteq> [] \<and> list_all is_digit c)
             then (Inl (ValueError ''invalid SCGI netstring''), s)
             else scgi_digits (digits @ c) s)
      else (Inl (ValueError ''SCGI length is too long''), s))"
  by pat_completeness auto
termination
  by (relation "measure (\<lambda>(digits, s). 10 - length digits)")
    (auto simp: neq_Nil_conv)

declare scgi_digits.simps [simp del]

definition scgi_header_length :: "bytes \<Rightarrow> nat res" where
  "scgi_header_length digits =
     (if digits = [] then Inl (ValueError ''missing SCGI length'')
      else let n = digits_value digits in
        if n = 0 \<or> n > MAX_HEADERS then Inl (ValueError ''invalid SCGI header length'') else Inr n)"

definition scgi_content_length :: "nat \<Rightarrow> headers \<Rightarrow> nat res" where
  "scgi_content_length max_request hs =
     (case int_of_bytes (header_get ''CONTENT_LENGTH'' ''0'' hs) of
        None \<Rightarrow> Inl (ValueError ''invalid SCGI content length'')
      | Some n \<Rightarrow> if n < 0 \<or> n > int max_request
                  then Inl (ValueError ''invalid SCGI content length'') else Inr (nat n))"

definition scgi_comma :: "bytes \<Rightarrow> unit res" where
  "scgi_comma c = (if c \<noteq> '','' then Inl (ValueError ''invalid SCGI netstring terminator'') else Inr ())"

text \<open>The part that reads: the mode the request selects and its body.\<close>

definition read_scgi :: "unicode \<Rightarrow> nat \<Rightarrow> (pystr \<times> bytes) io" where
  "read_scgi u max_request =
     io_bind (scgi_digits []) (\<lambda>digits.
     io_bind (io_lift (scgi_header_length digits)) (\<lambda>header_length.
     io_bind (recv_exact header_length) (\<lambda>data.
     io_bind (io_lift (parse_scgi_headers data)) (\<lambda>hs.
     io_bind (recv_exact 1) (\<lambda>c.
     io_bind (io_lift (scgi_comma c)) (\<lambda>_.
     io_bind (io_lift (scgi_content_length max_request hs)) (\<lambda>content_length.
     io_bind (if content_length \<noteq> 0 then recv_exact content_length else io_return []) (\<lambda>body.
     io_return (select_mode u (Bytes (header_get ''REQUEST_URI'' ''/'' hs)) (cgi_headers u [] hs),
                body)))))))))"

definition handle_scgi :: "unicode \<Rightarrow> nat \<Rightarrow> bool io" where
  "handle_scgi u max_request =
     io_bind (read_scgi u max_request) (\<lambda>(mode, body).
     io_bind (io_lift (response_plan u (Str mode) False body)) (\<lambda>p.
     io_bind (send_data (plan_wire p) (plan_partial p)) (\<lambda>_. io_return True)))"

section \<open>Reading as a function of the stream\<close>

text \<open>
  \<open>reads m f\<close>: on a peer that sends \<open>d\<close> and closes, \<open>m\<close> gives what \<open>f d\<close> says, leaves the
  rest that \<open>f d\<close> leaves, and writes nothing.
\<close>

definition reads :: "'a io \<Rightarrow> (bytes \<Rightarrow> ('a \<times> bytes) res) \<Rightarrow> bool" where
  "reads m f \<longleftrightarrow> (\<forall>s d. peer_sends s d \<longrightarrow> (\<exists>s'. out_side s' = out_side s \<and>
     (case f d of Inl e \<Rightarrow> m s = (Inl e, s') | Inr (x, d') \<Rightarrow> m s = (Inr x, s') \<and> peer_sends s' d')))"

definition need :: "nat \<Rightarrow> bytes \<Rightarrow> (bytes \<times> bytes) res" where
  "need n d = (if length d < n then Inl EOFError else Inr (take n d, drop n d))"

lemma reads_lift: "reads (io_lift r) (\<lambda>d. res_bind r (\<lambda>x. Inr (x, d)))"
  by (auto simp: reads_def io_lift_def res_bind_def split: sum.splits)

lemma reads_return: "reads (io_return x) (\<lambda>d. Inr (x, d))"
  by (auto simp: reads_def)

lemma reads_exact: "reads (recv_exact n) (need n)"
proof (unfold reads_def, intro allI impI)
  fix s d
  assume s: "peer_sends s d"
  show "\<exists>s'. out_side s' = out_side s \<and> (case need n d of Inl e \<Rightarrow> recv_exact n s = (Inl e, s')
      | Inr (x, d') \<Rightarrow> recv_exact n s = (Inr x, s') \<and> peer_sends s' d')"
  proof (cases "length d < n")
    case True
    obtain s' where "recv_exact n s = (Inl EOFError, s')" "out_side s' = out_side s"
      by (rule recv_exact_short [OF s True])
    with True show ?thesis by (auto simp: need_def)
  next
    case False
    then have "n \<le> length d" by simp
    then obtain s' where "recv_exact n s = (Inr (take n d), s')" "peer_sends s' (drop n d)"
      "out_side s' = out_side s" by (rule recv_exact_peer [OF s])
    with False show ?thesis by (auto simp: need_def)
  qed
qed

lemma reads_bind:
  assumes "reads m f" "\<And>x. reads (k x) (g x)"
  shows "reads (io_bind m k) (\<lambda>d. res_bind (f d) (\<lambda>(x, d'). g x d'))"
proof (unfold reads_def, intro allI impI)
  fix s d
  assume "peer_sends s d"
  with assms(1) obtain s1 where o: "out_side s1 = out_side s" and r: "case f d of Inl e \<Rightarrow> m s = (Inl e, s1)
      | Inr (x, d') \<Rightarrow> m s = (Inr x, s1) \<and> peer_sends s1 d'"
    unfolding reads_def by blast
  show "\<exists>s'. out_side s' = out_side s \<and> (case res_bind (f d) (\<lambda>(x, d'). g x d') of
      Inl e \<Rightarrow> io_bind m k s = (Inl e, s') | Inr (x, d') \<Rightarrow> io_bind m k s = (Inr x, s') \<and> peer_sends s' d')"
  proof (cases "f d")
    case (Inl e)
    with r o show ?thesis by auto
  next
    case (Inr y)
    then obtain x d' where y: "f d = Inr (x, d')" by (cases y) auto
    with r have m: "m s = (Inr x, s1)" "peer_sends s1 d'" by auto
    from assms(2) [of x] m(2) obtain s2 where "out_side s2 = out_side s1"
      "case g x d' of Inl e \<Rightarrow> k x s1 = (Inl e, s2) | Inr (z, d'') \<Rightarrow> k x s1 = (Inr z, s2) \<and> peer_sends s2 d''"
      unfolding reads_def by blast
    with y m(1) o show ?thesis
      by (intro exI [of _ s2]) (auto split: sum.splits)
  qed
qed

lemma reads_optional:
  "reads (if n \<noteq> 0 then recv_exact n else io_return []) (need n)"
proof (cases "n = 0")
  case True
  have "need 0 = (\<lambda>d. Inr ([], d))" by (rule ext) (simp add: need_def)
  with True reads_return [of "[]"] show ?thesis by simp
qed (simp add: reads_exact)

text \<open>The netstring length, digit by digit.\<close>

function digits_of :: "bytes \<Rightarrow> bytes \<Rightarrow> (bytes \<times> bytes) res" where
  "digits_of digits d =
     (if length digits < 10 then
        (case d of
           [] \<Rightarrow> Inl EOFError
         | c # d' \<Rightarrow>
             if c = CHR '':'' then Inr (digits, d')
             else if \<not> is_digit c then Inl (ValueError ''invalid SCGI netstring'')
             else digits_of (digits @ [c]) d')
      else Inl (ValueError ''SCGI length is too long''))"
  by pat_completeness auto
termination
  by (relation "measure (\<lambda>(digits, d). length d)") auto

declare digits_of.simps [simp del]

lemma reads_digits: "reads (scgi_digits digits) (digits_of digits)"
proof (unfold reads_def, intro allI impI)
  fix s d
  show "peer_sends s d \<Longrightarrow> \<exists>s'. out_side s' = out_side s \<and> (case digits_of digits d of
      Inl e \<Rightarrow> scgi_digits digits s = (Inl e, s')
    | Inr (x, d') \<Rightarrow> scgi_digits digits s = (Inr x, s') \<and> peer_sends s' d')"
  proof (induction d arbitrary: digits s)
    case Nil
    obtain s' where "recv_exact 1 s = (Inl EOFError, s')" "out_side s' = out_side s"
      using recv_exact_short [OF Nil.prems, of 1] by auto
    then show ?case
      by (cases "length digits < 10") (auto simp: scgi_digits.simps [of digits s] digits_of.simps)
  next
    case (Cons c d)
    obtain s1 where s1: "recv_exact 1 s = (Inr [c], s1)" "peer_sends s1 d" "out_side s1 = out_side s"
      using recv_exact_peer [OF Cons.prems, of 1] by auto
    show ?case
    proof (cases "length digits < 10 \<and> c \<noteq> CHR '':'' \<and> is_digit c")
      case True
      with s1(1) have step: "scgi_digits digits s = scgi_digits (digits @ [c]) s1"
        "digits_of digits (c # d) = digits_of (digits @ [c]) d"
        by (simp_all add: scgi_digits.simps [of digits s] digits_of.simps [of digits "c # d"])
      from Cons.IH [OF s1(2), of "digits @ [c]"] show ?thesis unfolding step s1(3) .
    next
      case False
      with s1 show ?thesis
        by (auto simp: scgi_digits.simps [of digits s] digits_of.simps [of digits "c # d"])
    qed
  qed
qed

section \<open>The handler as a function of the stream\<close>

definition scgi_request :: "unicode \<Rightarrow> nat \<Rightarrow> bytes \<Rightarrow> ((pystr \<times> bytes) \<times> bytes) res" where
  "scgi_request u max_request d =
     res_bind (digits_of [] d) (\<lambda>(digits, d).
     res_bind (scgi_header_length digits) (\<lambda>n.
     res_bind (need n d) (\<lambda>(data, d).
     res_bind (parse_scgi_headers data) (\<lambda>hs.
     res_bind (need 1 d) (\<lambda>(c, d).
     res_bind (scgi_comma c) (\<lambda>_.
     res_bind (scgi_content_length max_request hs) (\<lambda>k.
     res_bind (need k d) (\<lambda>(body, d).
     Inr ((select_mode u (Bytes (header_get ''REQUEST_URI'' ''/'' hs)) (cgi_headers u [] hs), body), d)))))))))"

lemma reads_lift_bind:
  "(\<And>x. reads (k x) (g x)) \<Longrightarrow> reads (io_bind (io_lift r) k) (\<lambda>d. res_bind r (\<lambda>x. g x d))"
proof (cases r)
  case (Inr x)
  have "io_bind (io_lift (Inr x)) k = k x" by (rule ext) simp
  with Inr show "(\<And>x. reads (k x) (g x)) \<Longrightarrow> ?thesis" by simp
qed (auto simp: reads_def)

lemma reads_scgi: "reads (read_scgi u max_request) (scgi_request u max_request)"
  unfolding read_scgi_def scgi_request_def
  by (intro reads_bind reads_lift_bind reads_digits reads_exact reads_optional reads_return)

lemma handle_scgi_peer:
  assumes "peer_sends s d" "takes_all s"
  shows "\<exists>s'. timeout s' = timeout s \<and> (case scgi_request u max_request d of
      Inl e \<Rightarrow> handle_scgi u max_request s = (Inl e, s') \<and> tx s' = tx s
    | Inr ((m, body), d') \<Rightarrow> \<exists>p. response_plan u (Str m) False body = Inr p
        \<and> handle_scgi u max_request s = (Inr True, s')
        \<and> tx s' = tx s @ plan_wire p \<and> peer_sends s' d')"
proof -
  from reads_scgi [of u max_request] assms(1) obtain s1 where o: "out_side s1 = out_side s"
    and r: "case scgi_request u max_request d of Inl e \<Rightarrow> read_scgi u max_request s = (Inl e, s1)
      | Inr (x, d') \<Rightarrow> read_scgi u max_request s = (Inr x, s1) \<and> peer_sends s1 d'"
    unfolding reads_def by blast
  show ?thesis
  proof (cases "scgi_request u max_request d")
    case (Inl e)
    with r o show ?thesis by (intro exI [of _ s1]) (simp add: handle_scgi_def out_side_eq)
  next
    case (Inr y)
    then obtain m body d' where y: "scgi_request u max_request d = Inr ((m, body), d')"
      by (cases y) auto
    with r have m: "read_scgi u max_request s = (Inr (m, body), s1)" "peer_sends s1 d'" by auto
    obtain p where p: "response_plan u (Str m) False body = Inr p" by (rule response_plan_ok)
    have "takes_all s1" using assms(2) o takes_all_cong [of s1 s] by (simp add: out_side_eq)
    then obtain s2 where "send_data (plan_wire p) (plan_partial p) s1 = (Inr (), s2)"
      "tx s2 = tx s1 @ plan_wire p" "rx s2 = rx s1" "timeout s2 = timeout s1" by (rule send_data_takes)
    with y m p o peer_sends_cong [of s2 s1] show ?thesis
      by (intro exI [of _ s2]) (simp add: handle_scgi_def out_side_eq)
  qed
qed

section \<open>The netstring of a client\<close>

text \<open>Variables as names and values, each ended by a zero byte.\<close>

definition scgi_vars :: "(bytes \<times> bytes) list \<Rightarrow> bytes" where
  "scgi_vars vars = concat (map (\<lambda>(n, v). n @ [mk_byte 0] @ v @ [mk_byte 0]) vars)"

definition var_ok :: "bytes \<times> bytes \<Rightarrow> bool" where
  "var_ok p \<longleftrightarrow> mk_byte 0 \<notin> set (fst p) \<and> mk_byte 0 \<notin> set (snd p)"

definition scgi_client :: "(bytes \<times> bytes) list \<Rightarrow> bytes \<Rightarrow> bytes" where
  "scgi_client vars body =
     show_nat (length (scgi_vars vars)) @ '':'' @ scgi_vars vars @ '','' @ body"

lemma show_nat_digits: "show_nat n \<noteq> [] \<and> list_all is_digit (show_nat n)"
proof (induction n rule: show_nat.induct)
  case (1 n)
  have "is_digit (mk_byte (48 + k))" if "k < 10" for k
    using that by (simp add: is_digit_def)
  with 1 show ?case by (subst (1 2) show_nat.simps) simp
qed

lemma digits_value_snoc: "digits_value (ds @ [c]) = digits_value ds * 10 + (byte_val c - 48)"
  by (simp add: digits_value_def)

lemma digits_value_show: "digits_value (show_nat n) = n"
proof (induction n rule: show_nat.induct)
  case (1 n)
  show ?case
  proof (cases "n < 10")
    case True
    then show ?thesis by (simp add: show_nat.simps [of n] digits_value_def)
  next
    case False
    with 1 show ?thesis by (simp add: show_nat.simps [of n] digits_value_snoc)
  qed
qed

lemma length_show_nat: "n < 10 ^ Suc k \<Longrightarrow> length (show_nat n) \<le> Suc k"
proof (induction k arbitrary: n)
  case 0
  then show ?case by (simp add: show_nat.simps)
next
  case (Suc k)
  then have "n div 10 < 10 ^ Suc k" by (simp add: less_mult_imp_div_less)
  with Suc.IH [of "n div 10"] show ?case by (simp add: show_nat.simps [of n])
qed

lemma digits_of_show:
  "list_all is_digit ds \<Longrightarrow> length digits + length ds < 10 \<Longrightarrow>
     digits_of digits (ds @ CHR '':'' # d) = Inr (digits @ ds, d)"
proof (induction ds arbitrary: digits)
  case Nil
  then show ?case by (simp add: digits_of.simps)
next
  case (Cons c ds)
  have "c \<noteq> CHR '':''" using Cons.prems(1) by (auto simp: is_digit_def)
  with Cons show ?case by (simp add: digits_of.simps [of digits])
qed

lemma split_vars:
  "list_all var_ok vars \<Longrightarrow> split_on (mk_byte 0) (scgi_vars vars) = concat (map (\<lambda>(n, v). [n, v]) vars) @ [[]]"
  by (induction vars) (auto simp: scgi_vars_def var_ok_def split_on_append split_on_none)

lemma scgi_pairs_vars:
  "scgi_pairs result (concat (map (\<lambda>(n, v). [n, v]) vars)) =
     foldl (\<lambda>r (n, v). AList.update (latin1 n) v r) result vars"
  by (induction vars arbitrary: result) auto

lemma parse_scgi_vars:
  assumes "list_all var_ok vars"
  shows "parse_scgi_headers (scgi_vars vars) = Inr (fcgi_env vars)"
proof -
  have "length (concat (map (\<lambda>(n, v). [n, v]) vars)) mod 2 = 0"
    by (induction vars) (auto simp: case_prod_unfold)
  then show ?thesis
    by (simp add: parse_scgi_headers_def split_vars [OF assms] scgi_pairs_vars fcgi_env_def)
qed

lemma scgi_request_vars:
  assumes "list_all var_ok vars" "vars \<noteq> []" "length (scgi_vars vars) \<le> MAX_HEADERS"
    and "scgi_content_length max_request (fcgi_env vars) = Inr (length body)"
  shows "scgi_request u max_request (scgi_client vars body @ rest) =
    Inr ((env_mode u (fcgi_env vars), body), rest)"
proof -
  let ?n = "length (scgi_vars vars)"
  have pos: "0 < ?n" using assms(2) by (cases vars) (auto simp: scgi_vars_def)
  have "?n < 10 ^ Suc 4" using assms(3) by (simp add: MAX_HEADERS_def)
  then have "length (show_nat ?n) \<le> Suc 4" by (rule length_show_nat)
  then have "digits_of [] (show_nat ?n @ CHR '':'' # scgi_vars vars @ '','' @ body @ rest) =
      Inr (show_nat ?n, scgi_vars vars @ '','' @ body @ rest)"
    using digits_of_show [of "show_nat ?n" "[]"] show_nat_digits [of ?n] by simp
  moreover have "scgi_header_length (show_nat ?n) = Inr ?n"
    using pos assms(3) show_nat_digits [of ?n]
    by (simp add: scgi_header_length_def digits_value_show Let_def)
  ultimately show ?thesis
    using assms(4) by (simp add: scgi_request_def scgi_client_def need_def parse_scgi_vars [OF assms(1)]
        scgi_comma_def env_mode_def)
qed

section \<open>Properties\<close>

text \<open>C26: \<open>handle_scgi\<close> is a function of the client's byte stream, however the network cuts
  it, as long as the client takes what is sent: a stream that is not a request within the
  limits raises its error with nothing sent; every other one is answered with exactly the plan
  of the mode it selects, and exactly the request's own bytes are read.\<close>

theorem handle_scgi_refines:
  assumes "peer_sends s d" "takes_all s"
  shows "\<exists>s'. timeout s' = timeout s \<and> (case scgi_request u max_request d of
      Inl e \<Rightarrow> handle_scgi u max_request s = (Inl e, s') \<and> tx s' = tx s
    | Inr ((m, body), d') \<Rightarrow> \<exists>p. response_plan u (Str m) False body = Inr p
        \<and> handle_scgi u max_request s = (Inr True, s')
        \<and> tx s' = tx s @ plan_wire p \<and> peer_sends s' d')"
  by (rule handle_scgi_peer [OF assms])

lemma handle_scgi_refines_witness:
  "\<exists>s'. handle_scgi plain_unicode MAX_REQUEST
      \<lparr>rx = [Chunk ''1'', Chunk ''x''], tx = [], accepts = [], timeout = 5\<rparr>
    = (Inl (ValueError ''invalid SCGI netstring''), s') \<and> tx s' = []"
proof -
  let ?s = "\<lparr>rx = [Chunk ''1'', Chunk ''x''], tx = [], accepts = [], timeout = 5\<rparr>"
  have p: "peer_sends ?s ''1x''" "takes_all ?s"
    by (auto simp: peer_sends_def takes_all_def intro!: exI [of _ "[''1'', ''x'']"])
  have "scgi_request plain_unicode MAX_REQUEST ''1x'' = Inl (ValueError ''invalid SCGI netstring'')"
    by (simp add: scgi_request_def digits_of.simps is_digit_def)
  with handle_scgi_refines [OF p, of plain_unicode MAX_REQUEST] show ?thesis by auto
qed

text \<open>C27: the netstring a client writes for any variables without zero bytes, up to 64 KiB,
  is read back as the mapping in which a later variable replaces an earlier one, with the body
  whose length the variables give, and selects the mode these variables would select under
  FastCGI.\<close>

theorem scgi_round_trip:
  assumes "list_all var_ok vars" "vars \<noteq> []" "length (scgi_vars vars) \<le> MAX_HEADERS"
    and "scgi_content_length max_request (fcgi_env vars) = Inr (length body)"
  shows "scgi_request u max_request (scgi_client vars body @ rest) =
    Inr ((env_mode u (fcgi_env vars), body), rest)"
  by (rule scgi_request_vars [OF assms])

lemma scgi_round_trip_witness:
  "scgi_request plain_unicode MAX_REQUEST
     (scgi_client [(''CONTENT_LENGTH'', ''3''), (''A'', ''b'')] ''abc'' @ ''next'') =
   Inr ((env_mode plain_unicode (fcgi_env [(''CONTENT_LENGTH'', ''3''), (''A'', ''b'')]), ''abc''), ''next'')"
proof -
  let ?vars = "[(''CONTENT_LENGTH'', ''3''), (''A'', ''b'')]"
  have "mk_byte 0 = (CHR 0x00)" by (simp add: char_of_def)
  then have "list_all var_ok ?vars" by (simp add: var_ok_def)
  moreover have "length (scgi_vars ?vars) \<le> MAX_HEADERS"
    by (simp add: scgi_vars_def MAX_HEADERS_def)
  moreover have "scgi_content_length MAX_REQUEST (fcgi_env ?vars) = Inr (length ''abc'')"
    by (simp add: scgi_content_length_def header_get_def fcgi_env_def int_of_bytes_def bytes_strip_def
        strip_by_def rstrip_by_def bytes_space_def is_digit_def digits_value_def MAX_REQUEST_def Let_def)
  ultimately show ?thesis by (intro scgi_round_trip) simp_all
qed

end
