(* ===== verification/Send_Case.thy ===== *)
theory Send_Case
  imports Framing Scgi
begin

text \<open>
  \<open>main\<close> of send-test-case.py with \<open>receive\<close> and \<open>receive_some\<close>: which packets an input and
  the options give, how they are written to the server (whole, or in two halves when the
  fragment flag is set), when a response is awaited, and the exit status. The two connections
  are arguments: the socket the first one gives or the error it raises, and the outcome of the
  second. What is printed is a list of values; formatting and sleeping are not modelled.
\<close>

section \<open>Options and packets\<close>

record case_args =
  packet_arg :: "int option"
  fuzzer_input :: bool
  case_timeout :: nat

definition case_flags :: "case_args \<Rightarrow> bytes \<Rightarrow> nat" where
  "case_flags args data =
     (if data \<noteq> [] \<and> (packet_arg args \<noteq> None \<or> fuzzer_input args) then byte_val (hd data) else 0)"

definition case_packets :: "case_args \<Rightarrow> bytes \<Rightarrow> bytes list res" where
  "case_packets args data =
     (case packet_arg args of
        Some n \<Rightarrow>
          if n < 1 then Inl (SystemExit ''--packet must be at least 1'')
          else res_bind (fuzzer_packets data) (\<lambda>packets.
            if n > int (length packets) then Inl (ValueError 
              (''fuzzer input contains only '' @ show_nat (length packets) @ '' packets''))
            else Inr [packets ! (nat n - 1)])
      | None \<Rightarrow> if fuzzer_input args then fuzzer_packets data else Inr [data])"

section \<open>receive, receive_some and the sending loop\<close>

definition MAX_RESPONSE :: nat where "MAX_RESPONSE = 1024 * 1024"

function receive_loop :: "bytes \<Rightarrow> bytes io" where
  "receive_loop response s =
     (if length response < MAX_RESPONSE then
        (case recv 65536 s of
           (Inl SocketTimeout, s) \<Rightarrow> (Inr response, s)
         | (Inl e, s) \<Rightarrow> (Inl e, s)
         | (Inr chunk, s) \<Rightarrow>
             if chunk = [] then (Inr response, s) else receive_loop (response @ chunk) s)
      else (Inr response, s))"
  by pat_completeness auto
termination
  by (relation "measure (\<lambda>(response, s). MAX_RESPONSE - length response)") (auto simp: diff_less_mono2)

declare receive_loop.simps [simp del]

definition receive :: "nat \<Rightarrow> bytes io" where
  "receive wait s = receive_loop [] (set_timeout wait s)"

definition receive_some :: "nat \<Rightarrow> bytes io" where
  "receive_some wait s =
     (case recv 8192 (set_timeout wait s) of
        (Inl SocketTimeout, s) \<Rightarrow> (Inr [], s)
      | (r, s) \<Rightarrow> (r, s))"

definition send_packet :: "nat \<Rightarrow> bytes \<Rightarrow> unit io" where
  "send_packet flags packet =
     (if flags AND 1 \<noteq> 0 \<and> length packet > 1 then
        let split = length packet div 2 in
        io_bind (sendall (take split packet)) (\<lambda>_. sendall (drop split packet))
      else sendall packet)"

text \<open>What is printed, in order.\<close>

datatype printed = Sending nat nat | Response bytes | NoResponse | Reachable | Unreachable

fun send_loop :: "nat \<Rightarrow> nat \<Rightarrow> nat \<Rightarrow> bytes list \<Rightarrow> printed list \<Rightarrow> sock
    \<Rightarrow> unit res \<times> printed list \<times> sock" where
  "send_loop flags wait number [] out s = (Inr (), out, s)"
| "send_loop flags wait number (packet # packets) out s =
     (let out = out @ [Sending number (length packet)] in
      case send_packet flags packet s of
        (Inl e, s) \<Rightarrow> (Inl e, out, s)
      | (Inr _, s) \<Rightarrow>
          if packets \<noteq> [] \<and> flags AND 4 \<noteq> 0 then
            (case receive_some wait s of
               (Inl e, s) \<Rightarrow> (Inl e, out, s)
             | (Inr response, s) \<Rightarrow>
                 send_loop flags wait (number + 1) packets (out @ [Response response]) s)
          else send_loop flags wait (number + 1) packets out s)"

definition send_case :: "case_args \<Rightarrow> nat \<Rightarrow> bytes list \<Rightarrow> sock \<Rightarrow> unit res \<times> printed list \<times> sock" where
  "send_case args flags packets s =
     (case send_loop flags (case_timeout args) 1 packets [] s of
        (Inl e, out, s) \<Rightarrow> (Inl e, out, s)
      | (Inr _, out, s) \<Rightarrow>
          (case receive (case_timeout args) s of
             (Inl e, s) \<Rightarrow> (Inl e, out, s)
           | (Inr response, s) \<Rightarrow>
               (Inr (), out @ [if response \<noteq> [] then Response response else NoResponse], s)))"

text \<open>The exceptions that are an \<open>OSError\<close> in Python.\<close>

definition is_os_error :: "py_error \<Rightarrow> bool" where
  "is_os_error e = (case e of OSError \<Rightarrow> True | SocketTimeout \<Rightarrow> True | ConnectionError _ \<Rightarrow> True | _ \<Rightarrow> False)"

text \<open>\<open>main\<close>: the exit status, what is printed, and the first socket as it was left.\<close>

definition send_main :: "case_args \<Rightarrow> bytes \<Rightarrow> sock res \<Rightarrow> unit res \<Rightarrow> nat res \<times> printed list \<times> sock option" where
  "send_main args data first second =
     (case case_packets args data of
        Inl e \<Rightarrow> (Inl e, [], None)
      | Inr packets \<Rightarrow>
          (case first of
             Inl e \<Rightarrow> (Inl e, [], None)
           | Inr s \<Rightarrow>
               (case send_case args (case_flags args data) packets s of
                  (Inl e, out, s) \<Rightarrow> (Inl e, out, Some s)
                | (Inr _, out, s) \<Rightarrow>
                    (case second of
                       Inr _ \<Rightarrow> (Inr 0, out @ [Reachable], Some s)
                     | Inl e \<Rightarrow>
                         if is_os_error e then (Inr 1, out @ [Unreachable], Some s)
                         else (Inl e, out, Some s)))))"

section \<open>What is sent and what is received\<close>

lemma sendall_takes:
  assumes "takes_all s"
  obtains s' where "sendall data s = (Inr (), s')" "tx s' = tx s @ data" "rx s' = rx s" "takes_all s'"
  using send_data_takes [OF assms, of data False] by (auto simp: send_data_def)

lemma send_packet_takes:
  assumes "takes_all s"
  obtains s' where "send_packet flags p s = (Inr (), s')" "tx s' = tx s @ p" "rx s' = rx s" "takes_all s'"
proof (cases "flags AND 1 \<noteq> 0 \<and> length p > 1")
  case True
  let ?k = "length p div 2"
  obtain s1 where s1: "sendall (take ?k p) s = (Inr (), s1)" "tx s1 = tx s @ take ?k p" "rx s1 = rx s"
    "takes_all s1" by (rule sendall_takes [OF assms])
  obtain s2 where s2: "sendall (drop ?k p) s1 = (Inr (), s2)" "tx s2 = tx s1 @ drop ?k p" "rx s2 = rx s1"
    "takes_all s2" by (rule sendall_takes [OF s1(4)])
  have "send_packet flags p s = (Inr (), s2)"
    using True s1(1) s2(1) by (simp add: send_packet_def Let_def)
  moreover have "tx s2 = tx s @ p" using s1(2) s2(2) by simp
  ultimately show ?thesis using that s1(3) s2(3,4) by simp
next
  case False
  obtain s1 where "sendall p s = (Inr (), s1)" "tx s1 = tx s @ p" "rx s1 = rx s" "takes_all s1"
    by (rule sendall_takes [OF assms])
  moreover have "send_packet flags p s = sendall p s"
    using False by (auto simp: send_packet_def)
  ultimately show ?thesis using that by simp
qed

text \<open>What the printed lines say about the server's bytes.\<close>

fun said :: "printed \<Rightarrow> bytes" where
  "said (Response d) = d"
| "said _ = []"

definition all_said :: "printed list \<Rightarrow> bytes" where
  "all_said out = concat (map said out)"

lemma all_said_simps [simp]:
  "all_said [] = []" "all_said (p # out) = said p @ all_said out"
  "all_said (out @ out') = all_said out @ all_said out'"
  by (simp_all add: all_said_def)

lemma receive_some_peer:
  assumes "peer_sends s d" "takes_all s"
  obtains b d' s' where "receive_some t s = (Inr b, s')" "d = b @ d'" "peer_sends s' d'"
    "tx s' = tx s" "takes_all s'"
proof -
  have p: "peer_sends (set_timeout t s) d" "(0::nat) < 8192"
    using assms(1) peer_sends_cong [of "set_timeout t s" s] by simp_all
  from recv_peer [OF p] obtain b d' s' where
    r: "recv 8192 (set_timeout t s) = (Inr b, s')" "d = b @ d'" "peer_sends s' d'" by blast
  have "out_side s' = out_side (set_timeout t s)" by (rule peer.get_kept [OF r(1)])
  with r assms(2) takes_all_cong [of s' s] show ?thesis
    by (intro that [of b s' d']) (simp_all add: receive_some_def out_side_eq)
qed

lemma receive_loop_peer:
  "peer_sends s d \<Longrightarrow>
     \<exists>b d' s'. receive_loop r s = (Inr (r @ b), s') \<and> d = b @ d' \<and> peer_sends s' d'
       \<and> tx s' = tx s \<and> (d' = [] \<or> MAX_RESPONSE \<le> length (r @ b))"
proof (induction "MAX_RESPONSE - length r" arbitrary: r s d rule: less_induct)
  case less
  show ?case
  proof (cases "length r < MAX_RESPONSE")
    case False
    with less.prems show ?thesis
      by (intro exI [of _ "[]"] exI [of _ d] exI [of _ s]) (simp add: receive_loop.simps [of r])
  next
    case True
    have "(0::nat) < 65536" by simp
    from recv_peer [OF less.prems this] obtain b d1 s1 where
      b: "recv 65536 s = (Inr b, s1)" "d = b @ d1" "peer_sends s1 d1" "b = [] \<longrightarrow> d = []" by blast
    have o: "out_side s1 = out_side s" by (rule peer.get_kept [OF b(1)])
    show ?thesis
    proof (cases "b = []")
      case True
      with b o \<open>length r < MAX_RESPONSE\<close> show ?thesis
        by (intro exI [of _ "[]"] exI [of _ "[]"] exI [of _ s1])
          (simp add: receive_loop.simps [of r] out_side_eq)
    next
      case False
      with True have "MAX_RESPONSE - length (r @ b) < MAX_RESPONSE - length r"
        by (simp add: diff_less_mono2)
      from less.hyps [OF this b(3)] obtain b' d' s' where
        "receive_loop (r @ b) s1 = (Inr ((r @ b) @ b'), s')" "d1 = b' @ d'" "peer_sends s' d'"
        "tx s' = tx s1" "d' = [] \<or> MAX_RESPONSE \<le> length ((r @ b) @ b')" by blast
      with True False b o show ?thesis
        by (intro exI [of _ "b @ b'"] exI [of _ d'] exI [of _ s'])
          (simp add: receive_loop.simps [of r] out_side_eq)
    qed
  qed
qed

lemma send_loop_peer:
  "peer_sends s d \<Longrightarrow> takes_all s \<Longrightarrow>
     \<exists>b d' lines s'. send_loop flags t n ps out s = (Inr (), out @ lines, s')
       \<and> d = b @ d' \<and> all_said lines = b \<and> peer_sends s' d' \<and> takes_all s' \<and> tx s' = tx s @ concat ps
       \<and> filter (\<lambda>l. \<exists>a b. l = Sending a b) lines = map2 (\<lambda>i p. Sending i (length p)) [n..<n + length ps] ps"
proof (induction ps arbitrary: n out s d)
  case Nil
  then show ?case by (intro exI [of _ "[]"] exI [of _ d] exI [of _ "[]"] exI [of _ s]) simp
next
  case (Cons p ps)
  obtain s1 where s1: "send_packet flags p s = (Inr (), s1)" "tx s1 = tx s @ p" "rx s1 = rx s" "takes_all s1"
    by (rule send_packet_takes [OF Cons.prems(2)])
  have p1: "peer_sends s1 d" using Cons.prems(1) peer_sends_cong [OF s1(3)] by simp
  let ?out = "out @ [Sending n (length p)]"
  have range: "[n..<n + length (p # ps)] = n # [Suc n..<Suc n + length ps]"
    using upt_conv_Cons [of n "n + length (p # ps)"] by simp
  show ?case
  proof (cases "ps \<noteq> [] \<and> flags AND 4 \<noteq> 0")
    case True
    obtain b d1 s2 where s2: "receive_some t s1 = (Inr b, s2)" "d = b @ d1" "peer_sends s2 d1"
      "tx s2 = tx s1" "takes_all s2" by (rule receive_some_peer [OF p1 s1(4)])
    from Cons.IH [OF s2(3,5), of "Suc n" "?out @ [Response b]"] obtain b' d' lines s' where r:
      "send_loop flags t (Suc n) ps (?out @ [Response b]) s2 = (Inr (), (?out @ [Response b]) @ lines, s')"
      "d1 = b' @ d'" "all_said lines = b'" "peer_sends s' d'" "takes_all s'" "tx s' = tx s2 @ concat ps"
      "filter (\<lambda>l. \<exists>a b. l = Sending a b) lines = map2 (\<lambda>i p. Sending i (length p)) [Suc n..<Suc n + length ps] ps"
      by blast
    with True s1 s2 show ?thesis unfolding range
      by (intro exI [of _ "b @ b'"] exI [of _ d'] exI [of _ "Sending n (length p) # Response b # lines"] exI [of _ s'])
        (simp add: Let_def)
  next
    case False
    from Cons.IH [OF p1 s1(4), of "Suc n" ?out] obtain b' d' lines s' where r:
      "send_loop flags t (Suc n) ps ?out s1 = (Inr (), ?out @ lines, s')"
      "d = b' @ d'" "all_said lines = b'" "peer_sends s' d'" "takes_all s'" "tx s' = tx s1 @ concat ps"
      "filter (\<lambda>l. \<exists>a b. l = Sending a b) lines = map2 (\<lambda>i p. Sending i (length p)) [Suc n..<Suc n + length ps] ps"
      by blast
    with False s1 show ?thesis unfolding range
      by (intro exI [of _ b'] exI [of _ d'] exI [of _ "Sending n (length p) # lines"] exI [of _ s'])
        (auto simp: Let_def)
  qed
qed

lemma send_case_peer:
  assumes "peer_sends s d" "takes_all s"
  shows "\<exists>out b d' s'. send_case args flags ps s = (Inr (), out, s') \<and> tx s' = tx s @ concat ps
    \<and> d = b @ d' \<and> all_said out = b \<and> (d' = [] \<or> MAX_RESPONSE \<le> length b)
    \<and> filter (\<lambda>l. \<exists>a b. l = Sending a b) out = map2 (\<lambda>i p. Sending i (length p)) [1..<1 + length ps] ps"
proof -
  obtain b1 d1 lines s1 where l: "send_loop flags (case_timeout args) 1 ps [] s = (Inr (), lines, s1)"
    "d = b1 @ d1" "all_said lines = b1" "peer_sends s1 d1" "tx s1 = tx s @ concat ps"
    "filter (\<lambda>l. \<exists>a b. l = Sending a b) lines = map2 (\<lambda>i p. Sending i (length p)) [1..<1 + length ps] ps"
    using send_loop_peer [OF assms, of flags "case_timeout args" 1 ps "[]"] by auto
  have p: "peer_sends (set_timeout (case_timeout args) s1) d1"
    using l(4) peer_sends_cong [of "set_timeout (case_timeout args) s1" s1] by simp
  from receive_loop_peer [OF p, of "[]"] obtain b2 d2 s2 where
    r: "receive (case_timeout args) s1 = (Inr b2, s2)" "d1 = b2 @ d2" "tx s2 = tx s1"
      "d2 = [] \<or> MAX_RESPONSE \<le> length b2" by (auto simp: receive_def)
  have "all_said (lines @ [if b2 \<noteq> [] then Response b2 else NoResponse]) = b1 @ b2"
    using l(3) by simp
  with l r show ?thesis
    by (intro exI [of _ "lines @ [if b2 \<noteq> [] then Response b2 else NoResponse]"] exI [of _ "b1 @ b2"]
        exI [of _ d2] exI [of _ s2]) (auto simp: send_case_def)
qed

section \<open>Properties\<close>

text \<open>C31: with a server that takes what it is sent, a replay puts exactly the selected packets
  on the wire, in order and whole, whether or not they are cut in two by the fragment flag; it
  announces each of them with its number and size; what it prints of the responses is the
  server's output from its beginning, in order and without a gap, up to the end or to the limit
  of 1 MiB; and the exit status tells whether the server can be reached afterwards, whatever \<open>OSError\<close> the
  second connection raises.\<close>

theorem send_main_replays:
  assumes "peer_sends s d" "takes_all s" "case_packets args data = Inr ps"
  shows "\<exists>out b d' s'. tx s' = tx s @ concat ps \<and> d = b @ d' \<and> all_said out = b
    \<and> (d' = [] \<or> MAX_RESPONSE \<le> length b)
    \<and> filter (\<lambda>l. \<exists>a b. l = Sending a b) out = map2 (\<lambda>i p. Sending i (length p)) [1..<1 + length ps] ps
    \<and> send_main args data (Inr s) (Inr ()) = (Inr 0, out @ [Reachable], Some s')
    \<and> (\<forall>e. is_os_error e \<longrightarrow>
         send_main args data (Inr s) (Inl e) = (Inr 1, out @ [Unreachable], Some s'))"
  using send_case_peer [OF assms(1,2), of args "case_flags args data" ps] assms(3)
  by (auto simp: send_main_def)

lemma send_main_replays_witness:
  "\<exists>out s'. send_main \<lparr>packet_arg = Some 2, fuzzer_input = False, case_timeout = 1\<rparr>
      (mk_byte 3 # frames [''ab'', ''cd''])
      (Inr \<lparr>rx = [Chunk ''o'', Chunk ''k''], tx = [], accepts = [Accept 1], timeout = 5\<rparr>) (Inr ())
    = (Inr 0, out @ [Reachable], Some s') \<and> tx s' = ''cd'' \<and> all_said out = ''ok''"
proof -
  let ?s = "\<lparr>rx = [Chunk ''o'', Chunk ''k''], tx = [], accepts = [Accept 1], timeout = 5\<rparr>"
  let ?args = "\<lparr>packet_arg = Some 2, fuzzer_input = False, case_timeout = 1\<rparr>"
  have p: "peer_sends ?s ''ok''" "takes_all ?s"
    by (auto simp: peer_sends_def takes_all_def intro!: exI [of _ "[''o'', ''k'']"])
  have "byte_val (mk_byte 3) AND 2 \<noteq> 0" by simp
  then have "fuzzer_packets (mk_byte 3 # frames [''ab'', ''cd'']) = Inr [''ab'', ''cd'']"
    using fuzzer_packets_multi [of "mk_byte 3" "frames [''ab'', ''cd'']" "[''ab'', ''cd'']"]
    by (simp add: packets_ok_def packet_ok_def del: of_char_of)
  then have "case_packets ?args (mk_byte 3 # frames [''ab'', ''cd'']) = Inr [''cd'']"
    by (simp add: case_packets_def)
  from send_main_replays [OF p this] obtain out b d' s' where r: "tx s' = ''cd''" "''ok'' = b @ d'"
    "all_said out = b" "d' = [] \<or> MAX_RESPONSE \<le> length b"
    "send_main ?args (mk_byte 3 # frames [''ab'', ''cd'']) (Inr ?s) (Inr ()) = (Inr 0, out @ [Reachable], Some s')"
    by auto
  have "length b \<le> 2" using arg_cong [OF r(2), of length] by simp
  with r have "b = ''ok''" by (auto simp: MAX_RESPONSE_def)
  with r show ?thesis by blast
qed

text \<open>C32: every nonempty file of a normalised corpus can be replayed: \<open>--fuzzer-input\<close> gives
  its 1 to 64 packets, \<open>--packet n\<close> the n-th of them, and a number out of range is an error
  before anything is sent.\<close>

theorem normalized_replays:
  assumes "d \<noteq> []"
  shows "\<exists>ps. 1 \<le> length ps \<and> length ps \<le> 64
    \<and> case_packets \<lparr>packet_arg = None, fuzzer_input = True, case_timeout = t\<rparr> (normalize d) = Inr ps
    \<and> (\<forall>n. case_packets \<lparr>packet_arg = Some n, fuzzer_input = f, case_timeout = t\<rparr> (normalize d) =
         (if 1 \<le> n \<and> n \<le> int (length ps) then Inr [ps ! (nat n - 1)]
          else if n < 1 then Inl (SystemExit ''--packet must be at least 1'')
          else Inl (ValueError (''fuzzer input contains only '' @ show_nat (length ps) @ '' packets''))))"
proof -
  from fuzzer_packets_harness_ok [OF harness_ok_normalize [OF assms]] obtain ps where
    "fuzzer_packets (normalize d) = Inr ps" "0 < length ps" "length ps \<le> 64" by blast
  then show ?thesis by (intro exI [of _ ps]) (simp add: case_packets_def Suc_le_eq)
qed

lemma normalized_replays_witness:
  "\<exists>ps. length ps \<le> 64
     \<and> case_packets \<lparr>packet_arg = None, fuzzer_input = True, case_timeout = 1\<rparr> (normalize ''GET /'') = Inr ps"
  using normalized_replays [of "''GET /''" 1] by blast

end
