(* ===== verification/Server.thy ===== *)
theory Server
  imports Prelude
begin

text \<open>
  \<open>BackendServer\<close> of backend-responder.py as a state machine: the acceptor thread, the
  worker threads and a caller of \<open>stop\<close>, interleaved at their accesses to the shared state
  (the stop flag, the listener, the bounded queue, the set of active clients). A step is one
  such access of one thread. What a protocol handler does with its client is the subject of the
  handler theories; here it is the time between \<open>WActive\<close> and \<open>WClosed\<close>, at whose end the
  \<open>with\<close> statement has closed the client, whatever the handler raised.

  A client is a number, fresh with every \<open>accept\<close>. The server is started once, as \<open>main\<close>
  does; joining the threads with a time-out changes no state.
\<close>

section \<open>State\<close>

type_synonym client = nat

text \<open>Where a thread stands in its loop, with the client in its hands.\<close>

datatype acceptor_at = AccTop | AccWait | AccHas client | AccOut

datatype worker_at =
  WTop | WGet | WGot client | WActive client | WClosed client | WOut

text \<open>How far \<open>stop\<close> has come: not called, flag set, listener closed, active clients closed,
  queue drained.\<close>

datatype stop_at = StopIdle | StopSet | StopListener | StopActive | StopDrained

record server =
  sv_workers :: nat
  sv_started :: bool
  sv_stopping :: bool
  sv_listener :: bool
  sv_queue :: "client list"
  sv_unfinished :: nat
  sv_active :: "client set"
  sv_closed :: "client set"
  sv_seen :: "client set"
  sv_acceptor :: acceptor_at
  sv_threads :: "worker_at list"
  sv_stop :: stop_at

text \<open>\<open>queue.Queue(maxsize=max(4, workers * 4))\<close>\<close>

definition queue_size :: "nat \<Rightarrow> nat" where
  "queue_size workers = max 4 (workers * 4)"

definition server_init :: "nat \<Rightarrow> server" where
  "server_init workers =
     \<lparr>sv_workers = workers, sv_started = False, sv_stopping = False, sv_listener = False,
      sv_queue = [], sv_unfinished = 0, sv_active = {}, sv_closed = {}, sv_seen = {},
      sv_acceptor = AccOut, sv_threads = [], sv_stop = StopIdle\<rparr>"

section \<open>Steps\<close>

datatype server_event =
    Start
  | AccCheck | AccAccept client | AccTimeout | AccError | AccPut
  | WCheck nat | WEmpty nat | WTake nat | WAdd nat | WHandled nat | WDiscard nat
  | StopFlag | StopListen | StopClients | StopQueue

text \<open>\<open>start\<close>: a listener, \<open>workers\<close> threads and the acceptor; nothing when it is running.\<close>

definition server_start :: "server \<Rightarrow> server" where
  "server_start s =
     (if sv_listener s then s
      else s\<lparr>sv_started := True, sv_listener := True, sv_acceptor := AccTop,
             sv_threads := replicate (sv_workers s) WTop\<rparr>)"

text \<open>\<open>_accept\<close>. A full queue closes the client at once.\<close>

definition acceptor_put :: "client \<Rightarrow> server \<Rightarrow> server" where
  "acceptor_put c s =
     (if length (sv_queue s) < queue_size (sv_workers s)
      then s\<lparr>sv_queue := sv_queue s @ [c], sv_unfinished := sv_unfinished s + 1, sv_acceptor := AccTop\<rparr>
      else s\<lparr>sv_closed := insert c (sv_closed s), sv_acceptor := AccTop\<rparr>)"

fun acceptor_step :: "server_event \<Rightarrow> acceptor_at \<Rightarrow> server \<Rightarrow> server option" where
  "acceptor_step AccCheck AccTop s =
     Some (s\<lparr>sv_acceptor := (if sv_stopping s then AccOut else AccWait)\<rparr>)"
| "acceptor_step (AccAccept c) AccWait s =
     (if sv_listener s \<and> c \<notin> sv_seen s
      then Some (s\<lparr>sv_seen := insert c (sv_seen s), sv_acceptor := AccHas c\<rparr>) else None)"
| "acceptor_step AccTimeout AccWait s = Some (s\<lparr>sv_acceptor := AccTop\<rparr>)"
| "acceptor_step AccError AccWait s = Some (s\<lparr>sv_acceptor := AccOut\<rparr>)"
| "acceptor_step AccPut (AccHas c) s = Some (acceptor_put c s)"
| "acceptor_step e a s = None"

text \<open>\<open>_worker\<close>. The two steps of its \<open>finally\<close> touch state no other thread reads together.\<close>

definition at_worker :: "nat \<Rightarrow> worker_at \<Rightarrow> server \<Rightarrow> server" where
  "at_worker w x s = s\<lparr>sv_threads := (sv_threads s)[w := x]\<rparr>"

fun worker_step :: "server_event \<Rightarrow> worker_at \<Rightarrow> server \<Rightarrow> server option" where
  "worker_step (WCheck w) WTop s = Some (at_worker w (if sv_stopping s then WOut else WGet) s)"
| "worker_step (WEmpty w) WGet s = (if sv_queue s = [] then Some (at_worker w WTop s) else None)"
| "worker_step (WTake w) WGet s =
     (case sv_queue s of [] \<Rightarrow> None | c # q \<Rightarrow> Some (at_worker w (WGot c) (s\<lparr>sv_queue := q\<rparr>)))"
| "worker_step (WAdd w) (WGot c) s =
     Some (at_worker w (WActive c) (s\<lparr>sv_active := insert c (sv_active s)\<rparr>))"
| "worker_step (WHandled w) (WActive c) s =
     Some (at_worker w (WClosed c) (s\<lparr>sv_closed := insert c (sv_closed s)\<rparr>))"
| "worker_step (WDiscard w) (WClosed c) s =
     Some (at_worker w WTop (s\<lparr>sv_active := sv_active s - {c}, sv_unfinished := sv_unfinished s - 1\<rparr>))"
| "worker_step e x s = None"

text \<open>\<open>stop\<close>.\<close>

fun stop_step :: "server_event \<Rightarrow> stop_at \<Rightarrow> server \<Rightarrow> server option" where
  "stop_step StopFlag StopIdle s = Some (s\<lparr>sv_stopping := True, sv_stop := StopSet\<rparr>)"
| "stop_step StopListen StopSet s = Some (s\<lparr>sv_listener := False, sv_stop := StopListener\<rparr>)"
| "stop_step StopClients StopListener s =
     Some (s\<lparr>sv_closed := sv_closed s \<union> sv_active s, sv_stop := StopActive\<rparr>)"
| "stop_step StopQueue StopActive s =
     (case sv_queue s of
        [] \<Rightarrow> Some (s\<lparr>sv_stop := StopDrained\<rparr>)
      | c # q \<Rightarrow> Some (s\<lparr>sv_queue := q, sv_closed := insert c (sv_closed s),
                        sv_unfinished := sv_unfinished s - 1\<rparr>))"
| "stop_step e x s = None"

definition worker_of :: "server_event \<Rightarrow> nat option" where
  "worker_of e = (case e of WCheck w \<Rightarrow> Some w | WEmpty w \<Rightarrow> Some w | WTake w \<Rightarrow> Some w
     | WAdd w \<Rightarrow> Some w | WHandled w \<Rightarrow> Some w | WDiscard w \<Rightarrow> Some w | _ \<Rightarrow> None)"

definition server_step :: "server_event \<Rightarrow> server \<Rightarrow> server option" where
  "server_step e s =
     (if e = Start then (if sv_started s then None else Some (server_start s))
      else if \<not> sv_started s then None
      else if e \<in> {StopFlag, StopListen, StopClients, StopQueue} then stop_step e (sv_stop s) s
      else (case worker_of e of
              Some w \<Rightarrow> if w < length (sv_threads s) then worker_step e (sv_threads s ! w) s else None
            | None \<Rightarrow> acceptor_step e (sv_acceptor s) s))"

fun server_run :: "server_event list \<Rightarrow> server \<Rightarrow> server option" where
  "server_run [] s = Some s"
| "server_run (e # es) s = (case server_step e s of None \<Rightarrow> None | Some s' \<Rightarrow> server_run es s')"

inductive server_reachable :: "nat \<Rightarrow> server \<Rightarrow> bool" for workers where
  init: "server_reachable workers (server_init workers)"
| step: "server_reachable workers s \<Longrightarrow> server_step e s = Some s' \<Longrightarrow> server_reachable workers s'"

lemma server_run_reachable:
  "server_run es s = Some s' \<Longrightarrow> server_reachable n s \<Longrightarrow> server_reachable n s'"
  by (induction es arbitrary: s) (auto split: option.splits intro: server_reachable.step)

section \<open>Where the clients are\<close>

definition acc_holds :: "acceptor_at \<Rightarrow> client list" where
  "acc_holds a = (case a of AccHas c \<Rightarrow> [c] | _ \<Rightarrow> [])"

definition worker_holds :: "worker_at \<Rightarrow> client list" where
  "worker_holds x = (case x of WGot c \<Rightarrow> [c] | WActive c \<Rightarrow> [c] | WClosed c \<Rightarrow> [c] | _ \<Rightarrow> [])"

definition worker_active :: "worker_at \<Rightarrow> client list" where
  "worker_active x = (case x of WActive c \<Rightarrow> [c] | WClosed c \<Rightarrow> [c] | _ \<Rightarrow> [])"

definition worker_finished :: "worker_at \<Rightarrow> client list" where
  "worker_finished x = (case x of WClosed c \<Rightarrow> [c] | _ \<Rightarrow> [])"

definition in_hand :: "server \<Rightarrow> client list" where
  "in_hand s = acc_holds (sv_acceptor s) @ sv_queue s @ concat (map worker_holds (sv_threads s))"

text \<open>
  The invariant: the queue is within its bound; every accepted client is in exactly one
  hand, or closed and in none; the active set is what the running handlers hold; the queue's
  count of unfinished tasks is exact, so \<open>task_done\<close> is never called too often.
\<close>

definition server_inv :: "server \<Rightarrow> bool" where
  "server_inv s \<longleftrightarrow>
     length (sv_queue s) \<le> queue_size (sv_workers s)
     \<and> length (sv_threads s) \<le> sv_workers s
     \<and> distinct (in_hand s)
     \<and> sv_seen s = sv_closed s \<union> set (in_hand s)
     \<and> sv_active s = set (concat (map worker_active (sv_threads s)))
     \<and> sv_unfinished s = length (sv_queue s) + length (concat (map worker_holds (sv_threads s)))
     \<and> set (concat (map worker_finished (sv_threads s))) \<subseteq> sv_closed s
     \<and> set (acc_holds (sv_acceptor s) @ sv_queue s) \<inter> sv_closed s = {}"

lemma holds_simps [simp]:
  "acc_holds AccTop = []" "acc_holds AccWait = []" "acc_holds (AccHas c) = [c]" "acc_holds AccOut = []"
  "worker_holds WTop = []" "worker_holds WGet = []" "worker_holds WOut = []"
  "worker_holds (WGot c) = [c]" "worker_holds (WActive c) = [c]" "worker_holds (WClosed c) = [c]"
  "worker_active WTop = []" "worker_active WGet = []" "worker_active WOut = []"
  "worker_finished WTop = []" "worker_finished WGet = []" "worker_finished WOut = []"
  "worker_finished (WGot c) = []" "worker_finished (WActive c) = []" "worker_finished (WClosed c) = [c]"
  "worker_active (WGot c) = []" "worker_active (WActive c) = [c]" "worker_active (WClosed c) = [c]"
  by (simp_all add: acc_holds_def worker_holds_def worker_active_def worker_finished_def)

lemma threads_split:
  assumes "w < length ts"
  obtains a b where "ts = a @ (ts ! w) # b" "\<And>x. ts[w := x] = a @ x # b"
proof -
  have "ts = take w ts @ (ts ! w) # drop (Suc w) ts" using assms by (rule id_take_nth_drop)
  moreover have "ts[w := x] = take w ts @ x # drop (Suc w) ts" for x
    using assms by (rule upd_conv_take_nth_drop)
  ultimately show ?thesis by (rule that)
qed

text \<open>The invariant on the parts, with one worker singled out.\<close>

definition parts_inv :: "nat \<Rightarrow> client list \<Rightarrow> client list \<Rightarrow> client set \<Rightarrow> client set \<Rightarrow> client set
    \<Rightarrow> nat \<Rightarrow> worker_at list \<Rightarrow> bool" where
  "parts_inv n acc q active closed seen unfinished ts \<longleftrightarrow>
     length q \<le> queue_size n \<and> length ts \<le> n \<and> distinct (acc @ q @ concat (map worker_holds ts))
     \<and> seen = closed \<union> set (acc @ q @ concat (map worker_holds ts))
     \<and> active = set (concat (map worker_active ts))
     \<and> unfinished = length q + length (concat (map worker_holds ts))
     \<and> set (concat (map worker_finished ts)) \<subseteq> closed
     \<and> set (acc @ q) \<inter> closed = {}"

lemma server_inv_parts:
  "server_inv s \<longleftrightarrow> parts_inv (sv_workers s) (acc_holds (sv_acceptor s)) (sv_queue s) (sv_active s)
     (sv_closed s) (sv_seen s) (sv_unfinished s) (sv_threads s)"
  by (simp add: server_inv_def parts_inv_def in_hand_def)

definition split_inv where
  "split_inv n acc q active closed seen unfinished k ha hx hb aa ax ab fa fx fb \<longleftrightarrow>
     length q \<le> queue_size n \<and> k \<le> n \<and> distinct (acc @ q @ ha @ hx @ hb)
     \<and> seen = closed \<union> set (acc @ q @ ha @ hx @ hb)
     \<and> active = set (aa @ ax @ ab)
     \<and> unfinished = length q + length (ha @ hx @ hb)
     \<and> set (fa @ fx @ fb) \<subseteq> closed
     \<and> set (acc @ q) \<inter> closed = {} \<and> set aa \<subseteq> set ha \<and> set ab \<subseteq> set hb"

lemma parts_inv_split:
  "parts_inv n acc q active closed seen unfinished (a @ x # b) \<longleftrightarrow>
     split_inv n acc q active closed seen unfinished (Suc (length a + length b))
       (concat (map worker_holds a)) (worker_holds x) (concat (map worker_holds b))
       (concat (map worker_active a)) (worker_active x) (concat (map worker_active b))
       (concat (map worker_finished a)) (worker_finished x) (concat (map worker_finished b))"
proof -
  have act: "set (worker_active x) \<subseteq> set (worker_holds x)" for x
    by (cases x) simp_all
  then have "set (concat (map worker_active l)) \<subseteq> set (concat (map worker_holds l))" for l
    by auto
  then show ?thesis
    by (simp only: parts_inv_def split_inv_def map_append list.map concat_append concat.simps
        length_append list.size) simp
qed

lemma worker_step_inv:
  assumes inv: "server_inv s" and w: "w < length (sv_threads s)"
    and e: "worker_of e = Some w" and step: "worker_step e (sv_threads s ! w) s = Some s'"
  shows "server_inv s'"
proof -
  obtain a b where ts: "sv_threads s = a @ (sv_threads s ! w) # b"
    "\<And>x. (sv_threads s)[w := x] = a @ x # b"
    using threads_split [OF w] by blast
  have at: "at_worker w y r = r\<lparr>sv_threads := a @ y # b\<rparr>" if "sv_threads r = sv_threads s" for y r
    by (simp add: at_worker_def that ts(2))
  from inv ts(1) have inv': "parts_inv (sv_workers s) (acc_holds (sv_acceptor s)) (sv_queue s) (sv_active s)
     (sv_closed s) (sv_seen s) (sv_unfinished s) (a @ (sv_threads s ! w) # b)"
    by (simp add: server_inv_parts)
  show ?thesis
  proof (cases "sv_threads s ! w")
    case WGet
    with step e consider "s' = s\<lparr>sv_threads := a @ WTop # b\<rparr>"
      | c q where "sv_queue s = c # q" "s' = s\<lparr>sv_queue := q, sv_threads := a @ WGot c # b\<rparr>"
      by (cases e) (auto simp: worker_of_def at split: list.splits if_splits)
    then show ?thesis
      using inv' unfolding WGet
      by cases (auto simp: server_inv_parts parts_inv_split split_inv_def simp del: set_concat)
  next
    case WTop
    with step e have "s' = s\<lparr>sv_threads := a @ (if sv_stopping s then WOut else WGet) # b\<rparr>"
      by (cases e) (simp_all add: worker_of_def at)
    then show ?thesis
      using inv' unfolding WTop
      by (auto simp: server_inv_parts parts_inv_split split_inv_def simp del: set_concat)
  next
    case (WGot c)
    with step e have "s' = s\<lparr>sv_active := insert c (sv_active s), sv_threads := a @ WActive c # b\<rparr>"
      by (cases e) (simp_all add: worker_of_def at)
    then show ?thesis
      using inv' unfolding WGot
      by (auto simp: server_inv_parts parts_inv_split split_inv_def simp del: set_concat)
  next
    case (WActive c)
    with step e have "s' = s\<lparr>sv_closed := insert c (sv_closed s), sv_threads := a @ WClosed c # b\<rparr>"
      by (cases e) (simp_all add: worker_of_def at)
    then show ?thesis
      using inv' unfolding WActive
      by (auto simp: server_inv_parts parts_inv_split split_inv_def simp del: set_concat)
  next
    case (WClosed c)
    with step e have "s' = s\<lparr>sv_active := sv_active s - {c}, sv_unfinished := sv_unfinished s - 1,
        sv_threads := a @ WTop # b\<rparr>"
      by (cases e) (simp_all add: worker_of_def at)
    then show ?thesis
      using inv' unfolding WClosed
      by (auto simp: server_inv_parts parts_inv_split split_inv_def simp del: set_concat)
  next
    case WOut
    with step e show ?thesis by (cases e) (simp_all add: worker_of_def)
  qed
qed

text \<open>The moves of the acceptor and of \<open>stop\<close>, where the workers stand still.\<close>

definition flat_inv where
  "flat_inv n acc q active closed seen unfinished k h a f \<longleftrightarrow>
     length q \<le> queue_size n \<and> k \<le> n \<and> distinct (acc @ q @ h)
     \<and> seen = closed \<union> set (acc @ q @ h) \<and> active = set a
     \<and> unfinished = length q + length h \<and> set f \<subseteq> closed \<and> set (acc @ q) \<inter> closed = {} \<and> set a \<subseteq> set h"

lemma server_inv_flat:
  "server_inv s \<longleftrightarrow> flat_inv (sv_workers s) (acc_holds (sv_acceptor s)) (sv_queue s) (sv_active s)
     (sv_closed s) (sv_seen s) (sv_unfinished s) (length (sv_threads s))
     (concat (map worker_holds (sv_threads s))) (concat (map worker_active (sv_threads s)))
     (concat (map worker_finished (sv_threads s)))"
proof -
  have "set (worker_active x) \<subseteq> set (worker_holds x)" for x by (cases x) simp_all
  then have "set (concat (map worker_active l)) \<subseteq> set (concat (map worker_holds l))" for l by auto
  then show ?thesis
    by (simp only: server_inv_parts parts_inv_def flat_inv_def) blast
qed

lemma flat_put:
  "flat_inv n [c] q active closed seen k' k h a f \<Longrightarrow> length q < queue_size n \<Longrightarrow>
     flat_inv n [] (q @ [c]) active closed seen (Suc k') k h a f"
  "flat_inv n [c] q active closed seen k' k h a f \<Longrightarrow>
     flat_inv n [] q active (insert c closed) seen k' k h a f"
  by (auto simp: flat_inv_def)

lemma flat_accept:
  "flat_inv n [] q active closed seen k' k h a f \<Longrightarrow> c \<notin> seen \<Longrightarrow>
     flat_inv n [c] q active closed (insert c seen) k' k h a f"
  by (auto simp: flat_inv_def)

lemma flat_drain:
  "flat_inv n acc (c # q) active closed seen k' k h a f \<Longrightarrow>
     flat_inv n acc q active (insert c closed) seen (k' - 1) k h a f"
  by (auto simp: flat_inv_def)

lemma flat_close:
  "flat_inv n acc q active closed seen k' k h a f \<Longrightarrow>
     flat_inv n acc q active (closed \<union> active) seen k' k h a f"
  by (auto simp: flat_inv_def)

lemma acceptor_step_inv:
  assumes inv: "server_inv s" and step: "acceptor_step e (sv_acceptor s) s = Some s'"
  shows "server_inv s'"
proof (cases "sv_acceptor s")
  case (AccHas c)
  with step have "s' = acceptor_put c s" by (cases e) simp_all
  with inv AccHas show ?thesis
    by (simp add: server_inv_flat acceptor_put_def flat_put)
next
  case AccWait
  with step consider "s' = s\<lparr>sv_acceptor := AccTop\<rparr>" | "s' = s\<lparr>sv_acceptor := AccOut\<rparr>"
    | c where "c \<notin> sv_seen s" "s' = s\<lparr>sv_seen := insert c (sv_seen s), sv_acceptor := AccHas c\<rparr>"
    by (cases e) (auto split: if_splits)
  then show ?thesis using inv AccWait
    by cases (simp_all add: server_inv_flat flat_accept)
next
  case AccTop
  with step have "s' = s\<lparr>sv_acceptor := (if sv_stopping s then AccOut else AccWait)\<rparr>"
    by (cases e) simp_all
  with inv AccTop show ?thesis by (simp add: server_inv_flat)
next
  case AccOut
  with step show ?thesis by (cases e) simp_all
qed

lemma stop_step_inv:
  assumes inv: "server_inv s" and step: "stop_step e (sv_stop s) s = Some s'"
  shows "server_inv s'"
proof (cases "sv_stop s")
  case StopActive
  with step consider "s' = s\<lparr>sv_stop := StopDrained\<rparr>"
    | c q where "sv_queue s = c # q" "s' = s\<lparr>sv_queue := q, sv_closed := insert c (sv_closed s),
                        sv_unfinished := sv_unfinished s - 1\<rparr>"
    by (cases e) (auto split: list.splits)
  then show ?thesis using inv by cases (auto simp: server_inv_flat dest: flat_drain)
qed (use assms in \<open>cases e; auto simp: server_inv_flat dest: flat_close\<close>)+

lemma server_start_inv: "server_inv s \<Longrightarrow> \<not> sv_started s \<Longrightarrow> sv_threads s = [] \<Longrightarrow>
    sv_acceptor s = AccOut \<Longrightarrow> server_inv (server_start s)"
  by (auto simp: server_start_def server_inv_flat flat_inv_def concat_replicate_trivial)

lemma server_unstarted:
  "server_reachable n s \<Longrightarrow> sv_workers s = n \<and>
     (\<not> sv_started s \<longrightarrow> sv_threads s = [] \<and> sv_acceptor s = AccOut \<and> \<not> sv_listener s)"
proof (induction rule: server_reachable.induct)
  case init
  show ?case by (simp add: server_init_def)
next
  case (step s e s')
  then show ?case
  proof (cases "e = Start")
    case True
    with step show ?thesis by (auto simp: server_step_def server_start_def split: if_splits)
  next
    case False
    have "sv_workers s' = sv_workers s \<and> sv_started s'" if "stop_step e (sv_stop s) s = Some s'" "sv_started s"
      using that by (cases "(e, sv_stop s, s)" rule: stop_step.cases) (auto split: list.splits)
    moreover have "sv_workers s' = sv_workers s \<and> sv_started s'"
      if "acceptor_step e (sv_acceptor s) s = Some s'" "sv_started s"
      using that by (cases "(e, sv_acceptor s, s)" rule: acceptor_step.cases)
        (auto simp: acceptor_put_def split: if_splits)
    moreover have "sv_workers s' = sv_workers s \<and> sv_started s'"
      if "worker_step e (sv_threads s ! w) s = Some s'" "sv_started s" for w
      using that by (cases "(e, sv_threads s ! w, s)" rule: worker_step.cases)
        (auto simp: at_worker_def split: list.splits if_splits)
    ultimately show ?thesis using step False
      by (auto simp: server_step_def split: if_splits option.splits)
  qed
qed

lemma server_inv_reachable: "server_reachable n s \<Longrightarrow> server_inv s"
proof (induction rule: server_reachable.induct)
  case init
  show ?case by (simp add: server_init_def server_inv_def in_hand_def)
next
  case (step s e s')
  have start: "server_inv (server_start s)" if "\<not> sv_started s"
    using that server_unstarted [OF step.hyps(1)] step.IH by (intro server_start_inv) auto
  from step.hyps(2) step.IH start show ?case
    by (auto simp: server_step_def intro: stop_step_inv acceptor_step_inv worker_step_inv
        split: if_splits option.splits)
qed

section \<open>Stopping\<close>

text \<open>Everything is quiet: \<open>stop\<close> has drained the queue and every thread has left its loop.\<close>

definition server_quiet :: "server \<Rightarrow> bool" where
  "server_quiet s \<longleftrightarrow> sv_stop s = StopDrained \<and> sv_acceptor s = AccOut
     \<and> list_all (\<lambda>x. x = WOut) (sv_threads s)"

text \<open>After the drain the queue can get one more client, from an acceptor that had it in hand.\<close>

definition stop_inv :: "server \<Rightarrow> bool" where
  "stop_inv s \<longleftrightarrow> (sv_stop s \<noteq> StopIdle \<longrightarrow> sv_started s \<and> sv_stopping s)
     \<and> (sv_stopping s \<longrightarrow> sv_started s)
     \<and> (sv_stop s = StopDrained \<longrightarrow>
          sv_queue s = [] \<or> length (sv_queue s) = 1 \<and> sv_acceptor s \<in> {AccTop, AccOut})"

lemma stop_inv_step:
  assumes "stop_inv s" "server_step e s = Some s'"
  shows "stop_inv s'"
proof -
  have acc: "stop_inv s'" if "acceptor_step e (sv_acceptor s) s = Some s'"
    using that assms(1) by (cases "(e, sv_acceptor s, s)" rule: acceptor_step.cases)
      (auto simp: stop_inv_def acceptor_put_def split: if_splits)
  have wrk: "stop_inv s'" if "worker_step e (sv_threads s ! w) s = Some s'" for w
    using that assms(1) by (cases "(e, sv_threads s ! w, s)" rule: worker_step.cases)
      (auto simp: stop_inv_def at_worker_def split: if_splits list.splits)
  have stp: "stop_inv s'" if "stop_step e (sv_stop s) s = Some s'" "sv_started s"
    using that assms(1) by (cases "(e, sv_stop s, s)" rule: stop_step.cases)
      (auto simp: stop_inv_def split: list.splits)
  have "stop_inv (server_start s)" if "\<not> sv_started s"
    using that assms(1) by (auto simp: stop_inv_def server_start_def)
  with assms(2) acc wrk stp show ?thesis
    by (auto simp: server_step_def split: if_splits option.splits)
qed

lemma stop_inv_reachable: "server_reachable n s \<Longrightarrow> stop_inv s"
proof (induction rule: server_reachable.induct)
  case init
  show ?case by (simp add: server_init_def stop_inv_def)
qed (rule stop_inv_step)

text \<open>What is left to do once the flag is set: every step of every thread does some of it.\<close>

definition worker_work :: "worker_at \<Rightarrow> nat" where
  "worker_work x = (case x of WTop \<Rightarrow> 1 | WGet \<Rightarrow> 6 | WGot c \<Rightarrow> 5 | WActive c \<Rightarrow> 4 | WClosed c \<Rightarrow> 3 | WOut \<Rightarrow> 0)"

definition acceptor_work :: "acceptor_at \<Rightarrow> nat" where
  "acceptor_work a = (case a of AccTop \<Rightarrow> 1 | AccWait \<Rightarrow> 5 | AccHas c \<Rightarrow> 4 | AccOut \<Rightarrow> 0)"

definition stop_work :: "stop_at \<Rightarrow> nat" where
  "stop_work x = (case x of StopIdle \<Rightarrow> 4 | StopSet \<Rightarrow> 3 | StopListener \<Rightarrow> 2 | StopActive \<Rightarrow> 1 | StopDrained \<Rightarrow> 0)"

definition server_work :: "server \<Rightarrow> nat" where
  "server_work s = sum_list (map worker_work (sv_threads s)) + acceptor_work (sv_acceptor s)
     + length (sv_queue s) + stop_work (sv_stop s)"

lemma server_work_step:
  assumes "sv_stopping s" "sv_started s" "server_step e s = Some s'"
  shows "sv_stopping s' \<and> sv_started s' \<and> server_work s' < server_work s"
proof -
  have acc: ?thesis if "acceptor_step e (sv_acceptor s) s = Some s'"
    using that assms(1,2) by (cases "(e, sv_acceptor s, s)" rule: acceptor_step.cases)
      (auto simp: server_work_def acceptor_work_def acceptor_put_def split: if_splits)
  have wrk: ?thesis if step: "worker_step e (sv_threads s ! w) s = Some s'" and w: "w < length (sv_threads s)"
    and e: "worker_of e = Some w" for w
  proof -
    obtain a b where ts: "sv_threads s = a @ (sv_threads s ! w) # b"
      "\<And>x. (sv_threads s)[w := x] = a @ x # b" using threads_split [OF w] by blast
    have "sum_list (map worker_work (sv_threads s)) =
        sum_list (map worker_work a) + worker_work (sv_threads s ! w) + sum_list (map worker_work b)"
      by (subst ts(1)) simp
    with step e assms(1,2) show ?thesis
      by (cases "(e, sv_threads s ! w, s)" rule: worker_step.cases)
        (auto simp: server_work_def worker_work_def at_worker_def worker_of_def ts(2)
          split: if_splits list.splits)
  qed
  have stp: ?thesis if "stop_step e (sv_stop s) s = Some s'"
    using that assms(1,2) by (cases "(e, sv_stop s, s)" rule: stop_step.cases)
      (auto simp: server_work_def stop_work_def split: list.splits)
  from assms(2,3) acc wrk stp show ?thesis
    by (auto simp: server_step_def split: if_splits option.splits)
qed

lemma server_run_work:
  "server_run es s = Some s' \<Longrightarrow> sv_stopping s \<Longrightarrow> sv_started s \<Longrightarrow> length es \<le> server_work s"
proof (induction es arbitrary: s)
  case (Cons e es)
  then obtain s1 where "server_step e s = Some s1" "server_run es s1 = Some s'"
    by (auto split: option.splits)
  with Cons server_work_step [of s e s1] show ?case by fastforce
qed simp

lemma server_run_started:
  "server_run es s = Some s' \<Longrightarrow> sv_stopping s \<Longrightarrow> sv_started s \<Longrightarrow> sv_started s'"
proof (induction es arbitrary: s)
  case (Cons e es)
  then obtain s1 where "server_step e s = Some s1" "server_run es s1 = Some s'"
    by (auto split: option.splits)
  with Cons server_work_step [of s e s1] show ?case by blast
qed simp

text \<open>No thread is ever stuck: as long as not everything is quiet, some step is enabled.\<close>

definition worker_next :: "nat \<Rightarrow> worker_at \<Rightarrow> client list \<Rightarrow> server_event" where
  "worker_next w x q = (case x of WTop \<Rightarrow> WCheck w | WGet \<Rightarrow> (if q = [] then WEmpty w else WTake w)
     | WGot c \<Rightarrow> WAdd w | WActive c \<Rightarrow> WHandled w | _ \<Rightarrow> WDiscard w)"

lemma worker_next_enabled:
  "x \<noteq> WOut \<Longrightarrow> w < length (sv_threads s) \<Longrightarrow> sv_threads s ! w = x \<Longrightarrow> sv_started s \<Longrightarrow>
     server_step (worker_next w x (sv_queue s)) s \<noteq> None"
  by (cases x; cases "sv_queue s") (simp_all add: server_step_def worker_of_def worker_next_def)

definition stop_next :: "stop_at \<Rightarrow> server_event" where
  "stop_next x = (case x of StopIdle \<Rightarrow> StopFlag | StopSet \<Rightarrow> StopListen | StopListener \<Rightarrow> StopClients | _ \<Rightarrow> StopQueue)"

lemma stop_next_enabled:
  "sv_stop s \<noteq> StopDrained \<Longrightarrow> sv_started s \<Longrightarrow> server_step (stop_next (sv_stop s)) s \<noteq> None"
  by (cases "sv_stop s"; cases "sv_queue s") (simp_all add: server_step_def stop_next_def)

definition acceptor_next :: "acceptor_at \<Rightarrow> server_event" where
  "acceptor_next a = (case a of AccTop \<Rightarrow> AccCheck | AccWait \<Rightarrow> AccTimeout | _ \<Rightarrow> AccPut)"

lemma acceptor_next_enabled:
  "sv_acceptor s \<noteq> AccOut \<Longrightarrow> sv_started s \<Longrightarrow> server_step (acceptor_next (sv_acceptor s)) s \<noteq> None"
  by (cases "sv_acceptor s") (simp_all add: server_step_def worker_of_def acceptor_next_def)

lemma server_progress:
  assumes "sv_started s" "\<not> server_quiet s"
  shows "\<exists>e s'. server_step e s = Some s'"
proof -
  consider "sv_stop s \<noteq> StopDrained" | "sv_acceptor s \<noteq> AccOut"
    | w where "w < length (sv_threads s)" "sv_threads s ! w \<noteq> WOut"
    using assms(2) by (auto simp: server_quiet_def list_all_length)
  then have "\<exists>e. server_step e s \<noteq> None"
    using stop_next_enabled acceptor_next_enabled worker_next_enabled assms(1) by cases metis+
  then show ?thesis by auto
qed

lemma server_quiesces:
  "sv_stopping s \<Longrightarrow> sv_started s \<Longrightarrow> \<exists>es s'. server_run es s = Some s' \<and> server_quiet s'"
proof (induction "server_work s" arbitrary: s rule: less_induct)
  case less
  show ?case
  proof (cases "server_quiet s")
    case True
    then show ?thesis by (intro exI [of _ "[]"] exI [of _ s]) simp
  next
    case False
    then obtain e s1 where s1: "server_step e s = Some s1"
      using server_progress less.prems by blast
    with server_work_step [OF less.prems s1] less.hyps [of s1] obtain es s' where
      "server_run es s1 = Some s'" "server_quiet s'" by blast
    with s1 show ?thesis by (intro exI [of _ "e # es"] exI [of _ s']) simp
  qed
qed

section \<open>Properties\<close>

text \<open>C28: whatever the interleaving of the threads, the queue stays within
  \<open>max(4, 4 * workers)\<close>, at most \<open>workers\<close> clients are served at a time, every client that was
  accepted is closed or in exactly one place (the acceptor's hand, the queue, one worker), and
  the count of unfinished tasks is that of the clients queued or being served.\<close>

theorem server_accounts_for_clients:
  assumes "server_reachable n s"
  shows "length (sv_queue s) \<le> queue_size n \<and> card (sv_active s) \<le> n
    \<and> distinct (in_hand s) \<and> sv_seen s = sv_closed s \<union> set (in_hand s)
    \<and> set (sv_queue s) \<inter> sv_closed s = {}
    \<and> sv_unfinished s = length (sv_queue s) + length (concat (map worker_holds (sv_threads s)))"
proof -
  have w: "sv_workers s = n" using server_unstarted [OF assms] by blast
  have inv: "server_inv s" by (rule server_inv_reachable [OF assms])
  have "length (concat (map worker_active l)) \<le> length l" for l
  proof (induction l)
    case (Cons x l)
    then show ?case by (cases x) simp_all
  qed simp
  then have "card (sv_active s) \<le> length (sv_threads s)"
    using inv card_length [of "concat (map worker_active (sv_threads s))"] le_trans
    unfolding server_inv_def by metis
  with inv w show ?thesis by (auto simp: server_inv_def)
qed

text \<open>A client in service, one in the queue and one in the acceptor's hand.\<close>

definition busy_run :: "server_event list" where
  "busy_run = [Start, AccCheck, AccAccept 1, AccPut, WCheck 0, WTake 0, WAdd 0,
     AccCheck, AccAccept 2, AccPut, AccCheck, AccAccept 3]"

lemma server_accounts_for_clients_witness:
  "\<exists>s. server_run busy_run (server_init 1) = Some s \<and> in_hand s = [3, 2, 1] \<and> card (sv_active s) \<le> 1"
proof -
  obtain s where s: "server_run busy_run (server_init 1) = Some s" "in_hand s = [3, 2, 1]"
    by (simp add: busy_run_def server_init_def server_step_def server_start_def worker_of_def
        acceptor_put_def queue_size_def at_worker_def in_hand_def)
  have "server_reachable 1 s" by (rule server_run_reachable [OF s(1) server_reachable.init])
  from server_accounts_for_clients [OF this] s show ?thesis by blast
qed

text \<open>C29: once \<open>stop\<close> has drained the queue and every thread has left its loop, every client
  that was ever accepted is closed, except at most one, which is in the queue: a client the
  acceptor had in hand when \<open>stop\<close> emptied the queue is put there and never closed.\<close>

theorem stop_closes_clients:
  assumes "server_reachable n s" "server_quiet s"
  shows "sv_seen s - sv_closed s = set (sv_queue s) \<and> length (sv_queue s) \<le> 1"
proof -
  have inv: "server_inv s" and stop: "stop_inv s"
    by (rule server_inv_reachable [OF assms(1)], rule stop_inv_reachable [OF assms(1)])
  have "concat (map worker_holds (sv_threads s)) = []"
    using assms(2) by (auto simp: server_quiet_def list_all_iff)
  with inv stop assms(2) show ?thesis
    by (auto simp: server_inv_def stop_inv_def in_hand_def server_quiet_def)
qed

definition leaking_run :: "server_event list" where
  "leaking_run = [Start, AccCheck, AccAccept 7, StopFlag, StopListen, StopClients, StopQueue,
     AccPut, AccCheck, WCheck 0]"

lemma stop_closes_clients_witness:
  "\<exists>s. server_run leaking_run (server_init 1) = Some s \<and> server_quiet s
     \<and> sv_seen s - sv_closed s = {7} \<and> sv_queue s = [7]"
proof -
  obtain s where s: "server_run leaking_run (server_init 1) = Some s" "server_quiet s" "sv_queue s = [7]"
    by (simp add: leaking_run_def server_init_def server_step_def server_start_def worker_of_def
        acceptor_put_def queue_size_def at_worker_def server_quiet_def)
  have "server_reachable 1 s" by (rule server_run_reachable [OF s(1) server_reachable.init])
  from stop_closes_clients [OF this s(2)] s show ?thesis by simp
qed

text \<open>C30: \<open>stop\<close> ends the server. From every reachable state in which the flag is set, no
  schedule of the threads takes more than \<open>server_work\<close> steps (six per worker at most, plus the
  queue and a constant), and as long as something is not quiet some thread can take a step, so
  that every maximal schedule ends with all threads out of their loops.\<close>

theorem stop_terminates:
  assumes "server_reachable n s" "sv_stopping s"
  shows "(\<forall>es s'. server_run es s = Some s' \<longrightarrow> length es \<le> server_work s
            \<and> (server_quiet s' \<or> (\<exists>e. server_step e s' \<noteq> None)))
    \<and> (\<exists>es s'. server_run es s = Some s' \<and> server_quiet s')"
proof -
  have st: "sv_started s" using stop_inv_reachable [OF assms(1)] assms(2) by (simp add: stop_inv_def)
  have "length es \<le> server_work s \<and> (server_quiet s' \<or> (\<exists>e. server_step e s' \<noteq> None))"
    if run: "server_run es s = Some s'" for es s'
  proof
    show "length es \<le> server_work s" by (rule server_run_work [OF run assms(2) st])
    show "server_quiet s' \<or> (\<exists>e. server_step e s' \<noteq> None)"
      using server_progress [of s'] server_run_started [OF run assms(2) st] by blast
  qed
  with server_quiesces [OF assms(2) st] show ?thesis by blast
qed

lemma stop_terminates_witness:
  "\<exists>s es s'. server_run (busy_run @ [StopFlag]) (server_init 1) = Some s
     \<and> server_run es s = Some s' \<and> server_quiet s'"
proof -
  obtain s where s: "server_run (busy_run @ [StopFlag]) (server_init 1) = Some s" "sv_stopping s"
    by (simp add: busy_run_def server_init_def server_step_def server_start_def worker_of_def
        acceptor_put_def queue_size_def at_worker_def)
  have "server_reachable 1 s" by (rule server_run_reachable [OF s(1) server_reachable.init])
  from stop_terminates [OF this s(2)] s show ?thesis by blast
qed

end
