(* ===== verification/Regex.thy ===== *)
theory Regex
  imports Text
begin

text \<open>
  The regular expressions of check_build.py: a syntax for the fragment of Python's \<open>re\<close> the
  checker writes (classes, greedy repetition of a class, sequence, ordered choice, numbered
  groups, the assertions \<open>\b\<close>, \<open>^\<close> and \<open>$\<close>), a backtracking matcher that yields the
  matches in Python's order of preference, and the language of an expression, which the
  matcher decides. Repetition is of a class only: the checker repeats nothing else.

  Two tables of the interpreter are parameters (\<open>re_tables\<close>): which code points above U+00FF
  are decimal digits (\<open>\d\<close>) and which are word characters (\<open>\w\<close>, for \<open>\b\<close>).
\<close>

record re_tables =
  wide_digit :: "nat \<Rightarrow> bool"
  wide_word :: "nat \<Rightarrow> bool"

definition plain_tables :: re_tables where
  "plain_tables = \<lparr>wide_digit = (\<lambda>_. False), wide_word = (\<lambda>_. False)\<rparr>"

section \<open>Syntax\<close>

datatype rx =
    Eps
  | Cls "nat \<Rightarrow> bool"
  | Many "nat \<Rightarrow> bool"
  | Cat rx rx
  | Alt rx rx
  | Grp nat rx
  | WordBreak
  | LineStart
  | LineEnd

definition is_digit :: "re_tables \<Rightarrow> nat \<Rightarrow> bool" where
  "is_digit t c \<longleftrightarrow> (if c < 256 then 48 \<le> c \<and> c \<le> 57 else wide_digit t c)"

definition is_word :: "re_tables \<Rightarrow> nat \<Rightarrow> bool" where
  "is_word t c \<longleftrightarrow>
     (if c < 256 then 48 \<le> c \<and> c \<le> 57 \<or> 65 \<le> c \<and> c \<le> 90 \<or> 97 \<le> c \<and> c \<le> 122 \<or> c = 95
        \<or> c \<in> {170, 178, 179, 181, 185, 186, 188, 189, 190} \<or> 192 \<le> c \<and> c \<noteq> 215 \<and> c \<noteq> 247
      else wide_word t c)"

definition is_hex :: "nat \<Rightarrow> bool" where
  "is_hex c \<longleftrightarrow> 48 \<le> c \<and> c \<le> 57 \<or> 97 \<le> c \<and> c \<le> 102 \<or> 65 \<le> c \<and> c \<le> 70"

definition is_alpha :: "nat \<Rightarrow> bool" where
  "is_alpha c \<longleftrightarrow> 65 \<le> c \<and> c \<le> 90 \<or> 97 \<le> c \<and> c \<le> 122"

definition not_newline :: "nat \<Rightarrow> bool" where "not_newline c \<longleftrightarrow> c \<noteq> 10"

text \<open>Abbreviations of the source's notation: \<open>x+\<close>, \<open>x?\<close>, a literal, an alternation.\<close>

definition plus :: "(nat \<Rightarrow> bool) \<Rightarrow> rx" where "plus p = Cat (Cls p) (Many p)"
definition opt :: "rx \<Rightarrow> rx" where "opt r = Alt r Eps"

fun lit :: "pystr \<Rightarrow> rx" where
  "lit [] = Eps"
| "lit (c # s) = Cat (Cls (\<lambda>x. x = c)) (lit s)"

fun seq :: "rx list \<Rightarrow> rx" where
  "seq [] = Eps"
| "seq [r] = r"
| "seq (r # s # rs) = Cat r (seq (s # rs))"

fun alts :: "rx list \<Rightarrow> rx" where
  "alts [] = Eps"
| "alts [r] = r"
| "alts (r # s # rs) = Alt r (alts (s # rs))"

abbreviation word :: "string \<Rightarrow> rx" where "word s \<equiv> lit (latin1 s)"
abbreviation words :: "string list \<Rightarrow> rx" where "words ws \<equiv> alts (map (\<lambda>w. lit (latin1 w)) ws)"

section \<open>The matcher\<close>

text \<open>
  A position in the subject is the text before it, reversed, and the text behind it. The
  groups are the captures made so far, the last one of a number first.
\<close>

type_synonym groups = "(nat \<times> pystr) list"
type_synonym rx_state = "groups \<times> pystr \<times> pystr"

definition word_at :: "re_tables \<Rightarrow> pystr \<Rightarrow> bool" where
  "word_at t s \<longleftrightarrow> (case s of [] \<Rightarrow> False | c # _ \<Rightarrow> is_word t c)"

definition line_start :: "pystr \<Rightarrow> bool" where
  "line_start bef \<longleftrightarrow> (case bef of [] \<Rightarrow> True | c # _ \<Rightarrow> c = 10)"

text \<open>\<open>$\<close> with and without \<open>re.MULTILINE\<close>: before any newline, or before a last one only.\<close>

definition line_end :: "bool \<Rightarrow> pystr \<Rightarrow> bool" where
  "line_end multi aft \<longleftrightarrow> (case aft of [] \<Rightarrow> True | c # cs \<Rightarrow> c = 10 \<and> (multi \<or> cs = []))"

text \<open>All ways to match at a position, the preferred one first.\<close>

primrec run :: "re_tables \<Rightarrow> bool \<Rightarrow> rx \<Rightarrow> rx_state \<Rightarrow> rx_state list" where
  "run t m Eps st = [st]"
| "run t m (Cls p) st =
     (case st of (gs, bef, aft) \<Rightarrow>
        case aft of [] \<Rightarrow> [] | c # cs \<Rightarrow> if p c then [(gs, c # bef, cs)] else [])"
| "run t m (Many p) st =
     (case st of (gs, bef, aft) \<Rightarrow>
        map (\<lambda>k. (gs, rev (take k aft) @ bef, drop k aft))
          (rev [0..<Suc (length (takeWhile p aft))]))"
| "run t m (Cat r s) st = concat (map (run t m s) (run t m r st))"
| "run t m (Alt r s) st = run t m r st @ run t m s st"
| "run t m (Grp n r) st =
     (case st of (gs, bef, aft) \<Rightarrow>
        map (\<lambda>(gs', bef', aft'). ((n, take (length aft - length aft') aft) # gs', bef', aft'))
          (run t m r st))"
| "run t m WordBreak st =
     (case st of (gs, bef, aft) \<Rightarrow> if word_at t bef \<noteq> word_at t aft then [st] else [])"
| "run t m LineStart st =
     (case st of (gs, bef, aft) \<Rightarrow>
        if (if m then line_start bef else bef = []) then [st] else [])"
| "run t m LineEnd st =
     (case st of (gs, bef, aft) \<Rightarrow> if line_end m aft then [st] else [])"

text \<open>\<open>re.match(r, s)\<close> with its groups, \<open>re.fullmatch(r, s)\<close>, \<open>re.search(r, s)\<close>.\<close>

definition re_match :: "re_tables \<Rightarrow> rx \<Rightarrow> pystr \<Rightarrow> groups option" where
  "re_match t r s = (case run t False r ([], [], s) of [] \<Rightarrow> None | (gs, _) # _ \<Rightarrow> Some gs)"

definition re_fullmatch :: "re_tables \<Rightarrow> rx \<Rightarrow> pystr \<Rightarrow> bool" where
  "re_fullmatch t r s = list_ex (\<lambda>(gs, bef, aft). aft = []) (run t False r ([], [], s))"

fun search_from :: "re_tables \<Rightarrow> bool \<Rightarrow> rx \<Rightarrow> pystr \<Rightarrow> pystr \<Rightarrow> rx_state list" where
  "search_from t m r bef [] = run t m r ([], bef, [])"
| "search_from t m r bef (c # cs) =
     (case run t m r ([], bef, c # cs) of
        [] \<Rightarrow> search_from t m r (c # bef) cs
      | sts \<Rightarrow> sts)"

definition re_search :: "re_tables \<Rightarrow> rx \<Rightarrow> pystr \<Rightarrow> bool" where
  "re_search t r s \<longleftrightarrow> search_from t False r [] s \<noteq> []"

text \<open>\<open>group(n)\<close>: a group that took no part is \<open>None\<close>.\<close>

definition group :: "nat \<Rightarrow> groups \<Rightarrow> pystr option" where
  "group n gs = map_of gs n"

section \<open>The language of an expression\<close>

text \<open>
  \<open>derives t m r bef w aft\<close>: the text \<open>w\<close>, standing between \<open>bef\<close> (reversed) and \<open>aft\<close>,
  belongs to \<open>r\<close>. The context matters to the assertions only.
\<close>

primrec derives :: "re_tables \<Rightarrow> bool \<Rightarrow> rx \<Rightarrow> pystr \<Rightarrow> pystr \<Rightarrow> pystr \<Rightarrow> bool" where
  "derives t m Eps bef w aft \<longleftrightarrow> w = []"
| "derives t m (Cls p) bef w aft \<longleftrightarrow> (\<exists>c. w = [c] \<and> p c)"
| "derives t m (Many p) bef w aft \<longleftrightarrow> list_all p w"
| "derives t m (Cat r s) bef w aft \<longleftrightarrow>
     (\<exists>u v. w = u @ v \<and> derives t m r bef u (v @ aft) \<and> derives t m s (rev u @ bef) v aft)"
| "derives t m (Alt r s) bef w aft \<longleftrightarrow> derives t m r bef w aft \<or> derives t m s bef w aft"
| "derives t m (Grp n r) bef w aft \<longleftrightarrow> derives t m r bef w aft"
| "derives t m WordBreak bef w aft \<longleftrightarrow> w = [] \<and> word_at t bef \<noteq> word_at t aft"
| "derives t m LineStart bef w aft \<longleftrightarrow> w = [] \<and> (if m then line_start bef else bef = [])"
| "derives t m LineEnd bef w aft \<longleftrightarrow> w = [] \<and> line_end m aft"

text \<open>Every result of the matcher is a split of the subject, and the split is in the language.\<close>

lemma run_sound:
  "(gs', bef', aft') \<in> set (run t m r (gs, bef, aft)) \<Longrightarrow>
     \<exists>w. aft = w @ aft' \<and> bef' = rev w @ bef \<and> derives t m r bef w aft'"
proof (induction r arbitrary: gs bef aft gs' bef' aft')
  case (Cls p)
  then show ?case by (cases aft) (auto split: if_splits)
next
  case (Many p)
  then obtain k where k: "k \<le> length (takeWhile p aft)" "bef' = rev (take k aft) @ bef"
    "aft' = drop k aft"
    by (force simp: less_Suc_eq_le simp del: upt_Suc)
  have "take k aft = take k (takeWhile p aft)"
    using k(1) by (metis append_take_drop_id take_append take_all takeWhile_dropWhile_id
        diff_is_0_eq take_0 append_Nil2)
  then have "list_all p (take k aft)"
    by (auto simp: list_all_iff dest!: in_set_takeD set_takeWhileD)
  with k show ?case by (auto intro!: exI [of _ "take k aft"])
next
  case (Cat r s)
  then obtain g1 b1 a1 where r: "(g1, b1, a1) \<in> set (run t m r (gs, bef, aft))"
    and s: "(gs', bef', aft') \<in> set (run t m s (g1, b1, a1))"
    by auto
  from Cat.IH(1) [OF r] obtain u where u: "aft = u @ a1" "b1 = rev u @ bef" "derives t m r bef u a1"
    by blast
  from Cat.IH(2) [OF s] obtain v where "a1 = v @ aft'" "bef' = rev v @ b1" "derives t m s b1 v aft'"
    by blast
  with u have "aft = (u @ v) @ aft'" "bef' = rev (u @ v) @ bef"
    "derives t m (Cat r s) bef (u @ v) aft'" by auto
  then show ?case by blast
next
  case (Grp n r)
  then show ?case by (auto dest: Grp.IH)
next
  case (Alt r s)
  from Alt.prems show ?case by (auto dest: Alt.IH)
qed (auto split: if_splits)

text \<open>Every split of the language is among the results.\<close>

lemma run_complete:
  "derives t m r bef w aft \<Longrightarrow>
     \<exists>gs'. (gs', rev w @ bef, aft) \<in> set (run t m r (gs, bef, w @ aft))"
proof (induction r arbitrary: gs bef w aft)
  case (Many p)
  then have "length w \<le> length (takeWhile p (w @ aft))"
    by (simp add: list_all_iff)
  then show ?case by (auto simp: less_Suc_eq_le intro!: image_eqI [of _ _ "length w"])
next
  case (Cat r s)
  then obtain u v where w: "w = u @ v" and r: "derives t m r bef u (v @ aft)"
    and s: "derives t m s (rev u @ bef) v aft"
    by auto
  from Cat.IH(1) [OF r] obtain g1
    where "(g1, rev u @ bef, v @ aft) \<in> set (run t m r (gs, bef, u @ v @ aft))" by blast
  moreover from Cat.IH(2) [OF s] obtain g2
    where "(g2, rev v @ rev u @ bef, aft) \<in> set (run t m s (g1, rev u @ bef, v @ aft))" by blast
  ultimately show ?case unfolding w by (auto intro!: bexI)
next
  case (Grp n r)
  then have "derives t m r bef w aft" by simp
  from Grp.IH [OF this] obtain g
    where "(g, rev w @ bef, aft) \<in> set (run t m r (gs, bef, w @ aft))" by blast
  then show ?case by force
next
  case (Alt r s)
  from Alt.prems consider "derives t m r bef w aft" | "derives t m s bef w aft" by auto
  then show ?case using Alt.IH by cases (auto, blast+)
qed auto

lemma re_fullmatch_iff: "re_fullmatch t r s \<longleftrightarrow> derives t False r [] s []"
proof
  assume "re_fullmatch t r s"
  then obtain gs bef where "(gs, bef, []) \<in> set (run t False r ([], [], s))"
    by (auto simp: re_fullmatch_def list_ex_iff)
  from run_sound [OF this] show "derives t False r [] s []" by auto
next
  assume "derives t False r [] s []"
  from run_complete [OF this, of "[]"] show "re_fullmatch t r s"
    by (force simp: re_fullmatch_def list_ex_iff)
qed

lemma re_match_iff: "re_match t r s \<noteq> None \<longleftrightarrow> (\<exists>w aft. s = w @ aft \<and> derives t False r [] w aft)"
proof
  assume "re_match t r s \<noteq> None"
  then obtain gs bef aft where "(gs, bef, aft) \<in> set (run t False r ([], [], s))"
    by (cases "run t False r ([], [], s)") (auto simp: re_match_def)
  from run_sound [OF this] show "\<exists>w aft. s = w @ aft \<and> derives t False r [] w aft"
    by auto
next
  assume "\<exists>w aft. s = w @ aft \<and> derives t False r [] w aft"
  then obtain w aft where "s = w @ aft" "derives t False r [] w aft" by blast
  with run_complete [OF this(2), of "[]"] show "re_match t r s \<noteq> None"
    by (auto simp: re_match_def split: list.splits)
qed

end
