(* ===== verification/Evidence.thy ===== *)
theory Evidence
  imports Regex "HOL-Library.List_Lexorder"
begin

text \<open>
  The evidence of check_build.py: the table of checks, reading the tables readelf prints for
  one ELF file or one archive member (\<open>parse_elf\<close>), cutting the output for an archive into its
  members (\<open>inspect\<close>), and judging a check by the evidence (\<open>detect\<close>, \<open>policy_failed\<close>).
  What readelf prints for a path is a parameter.
\<close>

section \<open>Text\<close>

text \<open>\<open>str.splitlines()\<close> and \<open>str.split()\<close>.\<close>

definition line_break :: "nat \<Rightarrow> bool" where
  "line_break c \<longleftrightarrow> 10 \<le> c \<and> c \<le> 13 \<or> 28 \<le> c \<and> c \<le> 30 \<or> c \<in> {133, 8232, 8233}"

function split_lines :: "pystr \<Rightarrow> pystr list" where
  "split_lines [] = []"
| "split_lines (c # cs) =
     (if c = 13 \<and> starts_with [10] cs then [] # split_lines (tl cs)
      else if line_break c then [] # split_lines cs
      else (case split_lines cs of [] \<Rightarrow> [[c]] | l # ls \<Rightarrow> (c # l) # ls))"
  by pat_completeness auto
termination
  by (relation "measure length") auto

fun split_ws :: "pystr \<Rightarrow> pystr list" where
  "split_ws [] = [[]]"
| "split_ws (c # cs) =
     (if str_space c then [] # split_ws cs
      else (case split_ws cs of [] \<Rightarrow> [[c]] | l # ls \<Rightarrow> (c # l) # ls))"

definition str_split :: "pystr \<Rightarrow> pystr list" where
  "str_split s = filter (\<lambda>w. w \<noteq> []) (split_ws s)"

fun join_with :: "pystr \<Rightarrow> pystr list \<Rightarrow> pystr" where
  "join_with sep [] = []"
| "join_with sep [s] = s"
| "join_with sep (s # t # ss) = s @ sep @ join_with sep (t # ss)"

text \<open>Text in the sources' literals, and \<open>str(n)\<close>.\<close>

abbreviation text_of :: "string \<Rightarrow> pystr" where "text_of s \<equiv> latin1 s"

definition str_nat :: "nat \<Rightarrow> pystr" where "str_nat n = latin1 (show_nat n)"

definition str_int :: "int \<Rightarrow> pystr" where
  "str_int i = (if i < 0 then 45 # str_nat (nat (- i)) else str_nat (nat i))"

text \<open>
  A set is the list of its elements without repetition, a dict the list of its entries in
  the order of their first insertion, as Python keeps it.
\<close>

definition set_add :: "'a \<Rightarrow> 'a list \<Rightarrow> 'a list" where
  "set_add x xs = (if x \<in> set xs then xs else xs @ [x])"

fun dict_set :: "'k \<Rightarrow> 'v \<Rightarrow> ('k \<times> 'v) list \<Rightarrow> ('k \<times> 'v) list" where
  "dict_set k v [] = [(k, v)]"
| "dict_set k v ((k', v') # d) = (if k' = k then (k, v) # d else (k', v') # dict_set k v d)"

definition dict_setdefault :: "'k \<Rightarrow> 'v \<Rightarrow> ('k \<times> 'v) list \<Rightarrow> ('k \<times> 'v) list" where
  "dict_setdefault k v d = (case map_of d k of None \<Rightarrow> dict_set k v d | Some _ \<Rightarrow> d)"

lemma set_set_add [simp]: "set (set_add x xs) = insert x (set xs)"
  by (auto simp: set_add_def)

lemma map_of_dict_set [simp]: "map_of (dict_set k v d) = (map_of d)(k \<mapsto> v)"
  by (induction d) (auto simp: fun_eq_iff)

lemma map_of_dict_setdefault [simp]:
  "map_of (dict_setdefault k v d) =
     (if map_of d k = None then (map_of d)(k \<mapsto> v) else map_of d)"
  by (auto simp: dict_setdefault_def split: option.splits)

section \<open>The table of checks\<close>

definition FORTIFY_FUNCTIONS :: "string list" where
  "FORTIFY_FUNCTIONS = [
    ''asprintf'', ''confstr'', ''dprintf'', ''explicit_bzero'', ''fdelt'', ''fgets'',
     ''fgets_unlocked'', ''fgetws'', ''fgetws_unlocked'', ''fprintf'', ''fread'',
     ''fread_unlocked'', ''fwprintf'', ''getcwd'', ''getdomainname'', ''getgroups'',
     ''gethostname'', ''getlogin_r'', ''gets'', ''getwd'', ''longjmp'', ''mbsnrtowcs'',
     ''mbsrtowcs'', ''mbstowcs'', ''memcpy'', ''memmove'', ''mempcpy'', ''memset'',
     ''obstack_printf'', ''obstack_vprintf'', ''poll'', ''ppoll'', ''pread'', ''pread64'',
     ''printf'', ''read'', ''readlink'', ''readlinkat'', ''realpath'', ''recv'', ''recvfrom'',
     ''snprintf'', ''sprintf'', ''stpcpy'', ''stpncpy'', ''strcat'', ''strcpy'', ''strncat'',
     ''strncpy'', ''swprintf'', ''syslog'', ''ttyname_r'', ''vasprintf'', ''vdprintf'',
     ''vfprintf'', ''vfwprintf'', ''vprintf'', ''vsnprintf'', ''vsprintf'', ''vswprintf'',
     ''vsyslog'', ''vwprintf'', ''wcrtomb'', ''wcpcpy'', ''wcpncpy'', ''wcsnrtombs'',
     ''wcsrtombs'', ''wcstombs'', ''wcscat'', ''wcscpy'', ''wcsncat'', ''wcsncpy'', ''wctomb'',
     ''wmemcpy'', ''wmemmove'', ''wmempcpy'', ''wmemset'', ''wprintf'']"

abbreviation any_text :: rx where "any_text \<equiv> Many not_newline"

text \<open>A check is its name, its symbol pattern and its section pattern.\<close>

definition CHECKS :: "(pystr \<times> rx option \<times> rx option) list" where
  "CHECKS = [
    (text_of ''stack_protector'',
     Some (seq [word ''__stack_chk_'', alts [seq [word ''fail'', opt (word ''_local'')], word ''guard'']]),
     None),
    (text_of ''fortify'',
     Some (alts [seq [word ''__'', opt (word ''nldbl___''), words FORTIFY_FUNCTIONS, word ''_chk'',
                      opt (word ''ieee128'')],
                 seq [word ''__open'', opt (words [''64'', ''at'', ''at64'']), word ''_2'']]),
     None),
    (text_of ''asan'',
     Some (seq [word ''__asan_'',
                alts [word ''init'', seq [word ''report_'', any_text], seq [word ''load'', any_text],
                      seq [word ''store'', any_text], seq [word ''stack_'', any_text],
                      seq [word ''register_'', any_text], seq [word ''unregister_'', any_text],
                      word ''memcpy'', word ''memmove'', word ''memset'']]),
     Some (word ''asan_globals'')),
    (text_of ''ubsan'', Some (seq [word ''__ubsan_handle_'', any_text]), None),
    (text_of ''tsan'',
     Some (seq [word ''__tsan_'',
                alts [word ''init'', seq [word ''read'', any_text], seq [word ''write'', any_text],
                      seq [word ''atomic'', any_text], word ''func_entry'', word ''func_exit'',
                      seq [word ''vptr_'', any_text]]]),
     None),
    (text_of ''msan'', Some (seq [word ''__msan_'', any_text]), None),
    (text_of ''sancov'',
     Some (seq [word ''__sanitizer_cov_'',
                alts [seq [word ''trace_pc'', opt (word ''_guard'')], word ''trace_pc_guard_init'',
                      word ''8bit_counters_init'', word ''bool_flag_init'']]),
     Some (seq [word ''__sancov_'', words [''cntrs'', ''guards'', ''bools'']])),
    (text_of ''sancov_cmp'',
     Some (seq [word ''__sanitizer_cov_trace_'',
                alts [seq [opt (word ''const_''), word ''cmp'', Cls (\<lambda>c. c \<in> {49, 50, 52, 56})],
                      word ''switch'']]),
     None),
    (text_of ''sancov_pc_table'', Some (word ''__sanitizer_cov_pcs_init''), Some (word ''__sancov_pcs'')),
    (text_of ''llvm_profile'', None, Some (seq [word ''__llvm_prf_'', words [''cnts'', ''bits'']])),
    (text_of ''source_coverage'', None, Some (word ''__llvm_covmap'')),
    (text_of ''libfuzzer'', Some (word ''LLVMFuzzerRunDriver''), None)]"

definition check_names :: "pystr list" where "check_names = map fst CHECKS"

text \<open>\<open>CHECKS[check]\<close>\<close>

definition check_patterns :: "pystr \<Rightarrow> rx option \<times> rx option" where
  "check_patterns check = the (map_of CHECKS check)"

datatype check_mode = Present | Absent | Ignore

datatype ev_state = Found | SymbolOnly | NotSeen | Unknown

primrec state_name :: "ev_state \<Rightarrow> pystr" where
  "state_name Found = text_of ''FOUND''"
| "state_name SymbolOnly = text_of ''SYMBOL-ONLY''"
| "state_name NotSeen = text_of ''NOT-SEEN''"
| "state_name Unknown = text_of ''UNKNOWN''"

definition STATES :: "ev_state list" where "STATES = [Found, SymbolOnly, NotSeen, Unknown]"

section \<open>One ELF file\<close>

text \<open>The rows of readelf's tables, and the lines that matter outside them.\<close>

definition header_line :: "pystr \<Rightarrow> bool" where
  "header_line line \<longleftrightarrow> line = text_of ''ELF Header:''"

definition rel_type_line :: "re_tables \<Rightarrow> pystr \<Rightarrow> bool" where
  "rel_type_line t line \<longleftrightarrow>
     re_match t (seq [Many str_space, word ''Type:'', plus str_space, word ''REL'', WordBreak]) line \<noteq> None"

definition section_rx :: "re_tables \<Rightarrow> rx" where
  "section_rx t =
     seq [Many str_space, word ''['', Many str_space, plus (is_digit t), word '']'', plus str_space,
          Grp 1 (plus (\<lambda>c. \<not> str_space c)), plus str_space, plus (\<lambda>c. \<not> str_space c), plus str_space,
          plus is_hex, plus str_space, plus is_hex, plus str_space, Grp 2 (plus is_hex),
          plus str_space, plus is_hex, plus str_space, Grp 3 (Many is_alpha), plus str_space,
          plus (is_digit t)]"

definition hex_digit :: "nat \<Rightarrow> nat" where
  "hex_digit c = (if c \<le> 57 then c - 48 else if c \<le> 70 then c - 55 else c - 87)"

definition int_hex :: "pystr \<Rightarrow> nat" where
  "int_hex s = foldl (\<lambda>a c. a * 16 + hex_digit c) 0 s"

text \<open>A section's name, size and flags.\<close>

definition section_row :: "re_tables \<Rightarrow> pystr \<Rightarrow> (pystr \<times> nat \<times> pystr) option" where
  "section_row t line =
     map_option (\<lambda>gs. (the (group 1 gs), int_hex (the (group 2 gs)), the (group 3 gs)))
       (re_match t (section_rx t) line)"

text \<open>A symbol's binding, section index and name without its version; rows of files and
  sections are passed over.\<close>

definition symbol_row :: "re_tables \<Rightarrow> pystr \<Rightarrow> (pystr \<times> pystr \<times> pystr) option" where
  "symbol_row t line =
     (let fields = str_split line in
      if length fields \<ge> 8 \<and> re_fullmatch t (seq [plus (is_digit t), word '':'']) (fields ! 0) then
        if fields ! 3 \<in> {text_of ''FILE'', text_of ''SECTION''} then None
        else Some (fields ! 4, fields ! 6, fst (cut 64 (fields ! 7)))
      else None)"

record elf_scan =
  references :: "pystr list"
  other_symbols :: "(pystr \<times> pystr) list"
  sections :: "pystr list"
  headers :: nat
  symtabs :: nat
  has_runtime_sections :: bool
  relocatable :: bool

definition elf_start :: elf_scan where
  "elf_start = \<lparr>references = [], other_symbols = [], sections = [], headers = 0, symtabs = 0,
     has_runtime_sections = False, relocatable = False\<rparr>"

definition scan_section :: "pystr \<times> nat \<times> pystr \<Rightarrow> elf_scan \<Rightarrow> elf_scan" where
  "scan_section row st =
     (case row of (name, extent, flags) \<Rightarrow>
        let st = (if name = text_of ''.symtab'' then symtabs_update Suc st else st)
        in if extent \<noteq> 0 then
             st\<lparr>sections := set_add name (sections st),
                has_runtime_sections := has_runtime_sections st \<or> 65 \<in> set flags \<or> 88 \<in> set flags\<rparr>
           else st)"

definition scan_symbol :: "pystr \<times> pystr \<times> pystr \<Rightarrow> elf_scan \<Rightarrow> elf_scan" where
  "scan_symbol row st =
     (case row of (bind, ndx, name) \<Rightarrow>
        if ndx \<noteq> text_of ''UND'' then
          other_symbols_update (dict_set name (text_of ''definition'')) st
        else if bind = text_of ''WEAK'' then
          other_symbols_update (dict_setdefault name (text_of ''weak reference'')) st
        else references_update (set_add name) st)"

definition scan_line :: "re_tables \<Rightarrow> pystr \<Rightarrow> elf_scan \<Rightarrow> elf_scan" where
  "scan_line t line st =
     (let st = (if header_line line then headers_update Suc st else st);
          st = (if rel_type_line t line then st\<lparr>relocatable := True\<rparr> else st);
          st = (case section_row t line of None \<Rightarrow> st | Some row \<Rightarrow> scan_section row st)
      in case symbol_row t line of None \<Rightarrow> st | Some row \<Rightarrow> scan_symbol row st)"

definition scan_lines :: "re_tables \<Rightarrow> pystr list \<Rightarrow> elf_scan \<Rightarrow> elf_scan" where
  "scan_lines t ls st = fold (scan_line t) ls st"

text \<open>The evidence of a unit: strong references, other symbols, sections that are not empty,
  and whether there is a symbol table.\<close>

record evidence =
  ev_references :: "pystr list"
  ev_other_symbols :: "(pystr \<times> pystr) list"
  ev_sections :: "pystr list"
  ev_symbols_present :: bool

record elf_unit =
  unit_member :: pystr
  unit_evidence :: "evidence option"
  unit_error :: pystr
  unit_skipped :: pystr

definition error_unit :: "pystr \<Rightarrow> pystr \<Rightarrow> elf_unit" where
  "error_unit member message =
     \<lparr>unit_member = member, unit_evidence = None, unit_error = message, unit_skipped = []\<rparr>"

definition parse_elf :: "re_tables \<Rightarrow> pystr \<Rightarrow> pystr \<Rightarrow> elf_unit res" where
  "parse_elf t output member =
     (let st = scan_lines t (split_lines output) elf_start in
      if headers st \<noteq> 1 then
        Inl (ValueError ''expected one ELF file (non-ELF members and LLVM bitcode are unsupported)'')
      else if list_ex (starts_with (text_of ''.gnu.lto_'')) (sections st) then
        Inl (ValueError ''GCC LTO objects are unsupported; inspect the final linked binary'')
      else if relocatable st \<and> \<not> has_runtime_sections st
              \<and> (text_of ''.rmeta'' \<in> set (sections st) \<or> text_of ''.rmeta-link'' \<in> set (sections st)) then
        Inr \<lparr>unit_member = member, unit_evidence = None, unit_error = [],
             unit_skipped = text_of ''Rust metadata (no runtime code or data)''\<rparr>
      else
        Inr \<lparr>unit_member = member,
             unit_evidence = Some \<lparr>ev_references = references st, ev_other_symbols = other_symbols st,
               ev_sections = sections st, ev_symbols_present = symtabs st \<noteq> 0\<rparr>,
             unit_error = [], unit_skipped = []\<rparr>)"

section \<open>A file or an archive\<close>

datatype artifact_kind = ObjectFile | BinaryFile | ArchiveFile

primrec kind_name :: "artifact_kind \<Rightarrow> pystr" where
  "kind_name ObjectFile = text_of ''object''"
| "kind_name BinaryFile = text_of ''binary''"
| "kind_name ArchiveFile = text_of ''archive''"

text \<open>\<open>str(error)\<close> of the errors \<open>parse_elf\<close> raises.\<close>

definition error_text :: "py_error \<Rightarrow> pystr" where
  "error_text e = (case e of ValueError m \<Rightarrow> text_of m | _ \<Rightarrow> [])"

text \<open>
  \<open>re.finditer\<close> with \<open>re.MULTILINE\<close>: the groups of each match with its start and its end.
  After a match the search goes on at its end. (A heading never matches the empty text.)
\<close>

function find_iter :: "re_tables \<Rightarrow> rx \<Rightarrow> pystr \<Rightarrow> pystr \<Rightarrow> (groups \<times> nat \<times> nat) list" where
  "find_iter t r bef aft =
     (case run t True r ([], bef, aft) of
        (gs, bef', aft') # _ \<Rightarrow>
          (gs, length bef, length bef') #
            (if length aft' < length aft then find_iter t r bef' aft'
             else case aft of [] \<Rightarrow> [] | c # cs \<Rightarrow> find_iter t r (c # bef) cs)
      | [] \<Rightarrow> (case aft of [] \<Rightarrow> [] | c # cs \<Rightarrow> find_iter t r (c # bef) cs))"
  by pat_completeness auto
termination
  by (relation "measure (\<lambda>(t, r, bef, aft). length aft)") auto

declare find_iter.simps [simp del]

definition heading_rx :: "pystr \<Rightarrow> rx" where
  "heading_rx path =
     seq [LineStart, word ''File: '', lit path,
          alts [seq [word ''('', Grp 1 any_text, word '')''], seq [word ''['', Grp 2 any_text, word '']'']],
          LineEnd]"

definition heading_member :: "groups \<Rightarrow> pystr" where
  "heading_member gs = (case group 1 gs of Some m \<Rightarrow> m | None \<Rightarrow> the (group 2 gs))"

text \<open>A unit for each heading, read from the text up to the next heading.\<close>

definition member_unit :: "re_tables \<Rightarrow> pystr \<Rightarrow> pystr \<Rightarrow> elf_unit" where
  "member_unit t chunk member =
     (case parse_elf t chunk member of
        Inl e \<Rightarrow> error_unit member (error_text e)
      | Inr u \<Rightarrow> u)"

fun archive_units :: "re_tables \<Rightarrow> pystr \<Rightarrow> (groups \<times> nat \<times> nat) list \<Rightarrow> elf_unit list" where
  "archive_units t out [] = []"
| "archive_units t out ((gs, a, b) # hs) =
     member_unit t (slice out b (case hs of [] \<Rightarrow> length out | (_, a', _) # _ \<Rightarrow> a')) (heading_member gs)
       # archive_units t out hs"

type_synonym readelf_result = "int \<times> pystr \<times> pystr"

definition readelf_diagnostic :: "int \<Rightarrow> pystr \<Rightarrow> pystr" where
  "readelf_diagnostic rc err =
     (if rc \<noteq> 0 \<or> str_strip err \<noteq> [] then
        text_of ''readelf: '' @
        take 500 (if str_split err = [] then text_of ''exit status '' @ str_int rc
                  else join_with (text_of '' '') (str_split err))
      else [])"

text \<open>\<open>inspect\<close>, given what running readelf on the path returned.\<close>

definition inspect_output :: "re_tables \<Rightarrow> pystr \<Rightarrow> artifact_kind \<Rightarrow> readelf_result \<Rightarrow> elf_unit list" where
  "inspect_output t path kind result =
     (case result of (rc, out, err) \<Rightarrow>
        let diagnostic = readelf_diagnostic rc err in
        if kind \<noteq> ArchiveFile then
          if diagnostic \<noteq> [] then [error_unit [] diagnostic] else [member_unit t out []]
        else
          let units = archive_units t out (find_iter t (heading_rx path) [] out) in
          if diagnostic \<noteq> [] then
            units @ [error_unit [] (text_of ''archive inspection incomplete: '' @ diagnostic)]
          else if units = [] then [error_unit [] (text_of ''no archive members found (empty archive)'')]
          else units)"

section \<open>Judging a check\<close>

text \<open>\<open>sorted(names that match)\<close>; Python orders text by its code points.\<close>

definition names_matching :: "re_tables \<Rightarrow> rx option \<Rightarrow> pystr list \<Rightarrow> pystr list" where
  "names_matching t pattern names =
     (case pattern of None \<Rightarrow> [] | Some r \<Rightarrow> sort (filter (re_fullmatch t r) names))"

definition detect :: "re_tables \<Rightarrow> pystr \<Rightarrow> evidence \<Rightarrow> ev_state \<times> pystr" where
  "detect t check ev =
     (case check_patterns check of (symbol_pattern, section_pattern) \<Rightarrow>
        case names_matching t section_pattern (ev_sections ev) of
          m # _ \<Rightarrow> (Found, m @ text_of '' (section)'')
        | [] \<Rightarrow>
          (case names_matching t symbol_pattern (ev_references ev) of
             m # _ \<Rightarrow> (Found, m @ text_of '' (reference)'')
           | [] \<Rightarrow>
             (case names_matching t symbol_pattern (map fst (ev_other_symbols ev)) of
                m # _ \<Rightarrow>
                  (let reason = the (map_of (ev_other_symbols ev) m) in
                   (if check = text_of ''libfuzzer'' \<and> reason = text_of ''definition'' then Found
                    else SymbolOnly,
                    m @ text_of '' ('' @ reason @ text_of '')''))
              | [] \<Rightarrow>
                if \<not> ev_symbols_present ev then (Unknown, text_of ''symbol table unavailable'')
                else (NotSeen, text_of ''no matching evidence''))))"

definition policy_failed :: "check_mode \<Rightarrow> ev_state \<Rightarrow> bool" where
  "policy_failed mode state \<longleftrightarrow>
     mode = Present \<and> state \<noteq> Found \<or> mode = Absent \<and> state \<noteq> NotSeen"

section \<open>What parse_elf reads\<close>

definition section_rows :: "re_tables \<Rightarrow> pystr list \<Rightarrow> (pystr \<times> nat \<times> pystr) list" where
  "section_rows t ls = List.map_filter (section_row t) ls"

definition symbol_rows :: "re_tables \<Rightarrow> pystr list \<Rightarrow> (pystr \<times> pystr \<times> pystr) list" where
  "symbol_rows t ls = List.map_filter (symbol_row t) ls"

lemma rows_simps [simp]:
  "section_rows t [] = []" "symbol_rows t [] = []"
  "section_rows t (l # ls) =
     (case section_row t l of None \<Rightarrow> section_rows t ls | Some r \<Rightarrow> r # section_rows t ls)"
  "symbol_rows t (l # ls) =
     (case symbol_row t l of None \<Rightarrow> symbol_rows t ls | Some r \<Rightarrow> r # symbol_rows t ls)"
  by (simp_all add: section_rows_def symbol_rows_def map_filter_simps split: option.splits)

lemma scan_lines_simps [simp]:
  "scan_lines t [] st = st"
  "scan_lines t (l # ls) st = scan_lines t ls (scan_line t l st)"
  by (simp_all add: scan_lines_def)

text \<open>The step, seen from each field of the state.\<close>

lemma scan_symbol_fields [simp]:
  "sections (scan_symbol r st) = sections st"
  "headers (scan_symbol r st) = headers st"
  "symtabs (scan_symbol r st) = symtabs st"
  "has_runtime_sections (scan_symbol r st) = has_runtime_sections st"
  "relocatable (scan_symbol r st) = relocatable st"
  by (simp_all add: scan_symbol_def split: prod.splits)

lemma scan_section_fields [simp]:
  "references (scan_section r st) = references st"
  "other_symbols (scan_section r st) = other_symbols st"
  "headers (scan_section r st) = headers st"
  "relocatable (scan_section r st) = relocatable st"
  by (simp_all add: scan_section_def Let_def split: prod.splits)

definition plus_section :: "(pystr \<times> nat \<times> pystr) option \<Rightarrow> elf_scan \<Rightarrow> elf_scan" where
  "plus_section r st = (case r of None \<Rightarrow> st | Some row \<Rightarrow> scan_section row st)"

lemma scan_line_fields [simp]:
  "references (scan_line t l st) =
     (case symbol_row t l of None \<Rightarrow> references st | Some r \<Rightarrow> references (scan_symbol r st))"
  "other_symbols (scan_line t l st) =
     (case symbol_row t l of None \<Rightarrow> other_symbols st | Some r \<Rightarrow> other_symbols (scan_symbol r st))"
  "sections (scan_line t l st) =
     (case section_row t l of None \<Rightarrow> sections st | Some r \<Rightarrow> sections (scan_section r st))"
  "symtabs (scan_line t l st) =
     (case section_row t l of None \<Rightarrow> symtabs st | Some r \<Rightarrow> symtabs (scan_section r st))"
  "has_runtime_sections (scan_line t l st) =
     (case section_row t l of None \<Rightarrow> has_runtime_sections st
      | Some r \<Rightarrow> has_runtime_sections (scan_section r st))"
  "headers (scan_line t l st) = headers st + (if header_line l then 1 else 0)"
  "relocatable (scan_line t l st) = (relocatable st \<or> rel_type_line t l)"
  by (auto simp: scan_line_def Let_def scan_symbol_def scan_section_def split: option.splits prod.splits)

lemma scan_headers: "headers (scan_lines t ls st) = headers st + length (filter header_line ls)"
  by (induction ls arbitrary: st) auto

lemma scan_relocatable: "relocatable (scan_lines t ls st) \<longleftrightarrow> relocatable st \<or> list_ex (rel_type_line t) ls"
  by (induction ls arbitrary: st) auto

lemma scan_references:
  "set (references (scan_lines t ls st)) = set (references st) \<union>
     {n. \<exists>b. (b, text_of ''UND'', n) \<in> set (symbol_rows t ls) \<and> b \<noteq> text_of ''WEAK''}"
  by (induction ls arbitrary: st) (auto simp: scan_symbol_def split: option.splits)

lemma scan_sections:
  "set (sections (scan_lines t ls st)) =
     set (sections st) \<union> {n. \<exists>e f. (n, e, f) \<in> set (section_rows t ls) \<and> e \<noteq> 0}"
  by (induction ls arbitrary: st) (auto simp: scan_section_def Let_def split: option.splits)

lemma scan_symtabs:
  "symtabs (scan_lines t ls st) \<noteq> 0 \<longleftrightarrow>
     symtabs st \<noteq> 0 \<or> (\<exists>e f. (text_of ''.symtab'', e, f) \<in> set (section_rows t ls))"
  by (induction ls arbitrary: st) (auto simp: scan_section_def Let_def split: option.splits)

definition runtime_row :: "pystr \<times> nat \<times> pystr \<Rightarrow> bool" where
  "runtime_row row = (case row of (n, e, f) \<Rightarrow> e \<noteq> 0 \<and> (65 \<in> set f \<or> 88 \<in> set f))"

lemma scan_runtime:
  "has_runtime_sections (scan_lines t ls st) \<longleftrightarrow>
     has_runtime_sections st \<or> list_ex runtime_row (section_rows t ls)"
proof (induction ls arbitrary: st)
  case (Cons l ls)
  have "has_runtime_sections (scan_section r st) \<longleftrightarrow> has_runtime_sections st \<or> runtime_row r" for r
    by (cases r) (auto simp: scan_section_def Let_def runtime_row_def)
  with Cons show ?case by (cases "section_row t l") auto
qed simp

text \<open>A definition decides; otherwise the first weak reference stays.\<close>

definition defined_in :: "pystr \<Rightarrow> pystr \<times> pystr \<times> pystr \<Rightarrow> bool" where
  "defined_in n row = (case row of (b, x, m) \<Rightarrow> m = n \<and> x \<noteq> text_of ''UND'')"

definition weak_in :: "pystr \<Rightarrow> pystr \<times> pystr \<times> pystr \<Rightarrow> bool" where
  "weak_in n row = (case row of (b, x, m) \<Rightarrow> m = n \<and> x = text_of ''UND'' \<and> b = text_of ''WEAK'')"

lemma scan_symbol_other:
  "map_of (other_symbols (scan_symbol r st)) n =
     (if defined_in n r then Some (text_of ''definition'')
      else if weak_in n r \<and> map_of (other_symbols st) n = None then Some (text_of ''weak reference'')
      else map_of (other_symbols st) n)"
  by (cases r) (simp add: scan_symbol_def defined_in_def weak_in_def)

lemma scan_other_symbols:
  "map_of (other_symbols (scan_lines t ls st)) n =
     (if list_ex (defined_in n) (symbol_rows t ls) then Some (text_of ''definition'')
      else if list_ex (weak_in n) (symbol_rows t ls) \<and> map_of (other_symbols st) n = None
      then Some (text_of ''weak reference'')
      else map_of (other_symbols st) n)"
proof (induction ls arbitrary: st)
  case (Cons l ls)
  show ?case
  proof (cases "symbol_row t l")
    case (Some r)
    with Cons [of "scan_line t l st"] show ?thesis
      by (auto simp: scan_symbol_other)
  qed (simp add: Cons)
qed simp

text \<open>The evidence of the rows, all at once.\<close>

definition rows_evidence :: "re_tables \<Rightarrow> pystr list \<Rightarrow> evidence \<Rightarrow> bool" where
  "rows_evidence t ls ev \<longleftrightarrow>
     set (ev_references ev) =
       {n. \<exists>b. (b, text_of ''UND'', n) \<in> set (symbol_rows t ls) \<and> b \<noteq> text_of ''WEAK''}
     \<and> map_of (ev_other_symbols ev) = (\<lambda>n.
         if list_ex (defined_in n) (symbol_rows t ls) then Some (text_of ''definition'')
         else if list_ex (weak_in n) (symbol_rows t ls) then Some (text_of ''weak reference'')
         else None)
     \<and> set (ev_sections ev) = {n. \<exists>e f. (n, e, f) \<in> set (section_rows t ls) \<and> e \<noteq> 0}
     \<and> (ev_symbols_present ev \<longleftrightarrow> (\<exists>e f. (text_of ''.symtab'', e, f) \<in> set (section_rows t ls)))"

definition rust_metadata :: "re_tables \<Rightarrow> pystr list \<Rightarrow> bool" where
  "rust_metadata t ls \<longleftrightarrow>
     list_ex (rel_type_line t) ls \<and> \<not> list_ex runtime_row (section_rows t ls)
     \<and> (\<exists>n e f. (n, e, f) \<in> set (section_rows t ls) \<and> e \<noteq> 0
            \<and> n \<in> {text_of ''.rmeta'', text_of ''.rmeta-link''})"

definition lto_object :: "re_tables \<Rightarrow> pystr list \<Rightarrow> bool" where
  "lto_object t ls \<longleftrightarrow>
     (\<exists>n e f. (n, e, f) \<in> set (section_rows t ls) \<and> e \<noteq> 0 \<and> starts_with (text_of ''.gnu.lto_'') n)"

lemma parse_elf_outcome:
  "case parse_elf t out m of
     Inl e \<Rightarrow> length (filter header_line (split_lines out)) \<noteq> 1 \<or> lto_object t (split_lines out)
   | Inr u \<Rightarrow> length (filter header_line (split_lines out)) = 1 \<and> \<not> lto_object t (split_lines out)
       \<and> unit_member u = m \<and> unit_error u = []
       \<and> (case unit_evidence u of
            None \<Rightarrow> rust_metadata t (split_lines out) \<and> unit_skipped u \<noteq> []
          | Some ev \<Rightarrow> \<not> rust_metadata t (split_lines out) \<and> unit_skipped u = []
              \<and> rows_evidence t (split_lines out) ev)"
proof -
  let ?ls = "split_lines out"
  let ?st = "scan_lines t ?ls elf_start"
  have h: "headers ?st = length (filter header_line ?ls)"
    by (simp add: scan_headers elf_start_def)
  have l: "list_ex (starts_with (text_of ''.gnu.lto_'')) (sections ?st) \<longleftrightarrow> lto_object t ?ls"
    unfolding list_ex_iff scan_sections lto_object_def by (auto simp: elf_start_def)
  have r: "relocatable ?st \<and> \<not> has_runtime_sections ?st
      \<and> (text_of ''.rmeta'' \<in> set (sections ?st) \<or> text_of ''.rmeta-link'' \<in> set (sections ?st))
      \<longleftrightarrow> rust_metadata t ?ls"
    unfolding scan_relocatable scan_runtime scan_sections rust_metadata_def
    by (auto simp: elf_start_def)
  have e: "rows_evidence t ?ls \<lparr>ev_references = references ?st, ev_other_symbols = other_symbols ?st,
      ev_sections = sections ?st, ev_symbols_present = symtabs ?st \<noteq> 0\<rparr>"
    unfolding rows_evidence_def evidence.simps scan_references scan_sections scan_symtabs
    by (auto simp: fun_eq_iff scan_other_symbols elf_start_def)
  show ?thesis
    using e unfolding parse_elf_def Let_def h l r
    by (simp add: latin1_def)
qed

section \<open>The members of an archive\<close>

lemma run_lit:
  "run t m (lit s) (gs, bef, aft) =
     (if starts_with s aft then [(gs, rev s @ bef, drop (length s) aft)] else [])"
proof (induction s arbitrary: bef aft)
  case (Cons c s)
  then show ?case by (cases aft) auto
qed simp

lemma concat_map_single:
  "j \<in> set xs \<Longrightarrow> distinct xs \<Longrightarrow> (\<And>k. k \<in> set xs \<Longrightarrow> k \<noteq> j \<Longrightarrow> f k = []) \<Longrightarrow> concat (map f xs) = f j"
proof (induction xs)
  case (Cons x xs)
  show ?case
  proof (cases "x = j")
    case True
    with Cons have "concat (map f xs) = []" by auto
    with True show ?thesis by simp
  next
    case False
    with Cons show ?thesis by auto
  qed
qed simp

lemma concat_map_concat: "concat (map h (concat (map g xs))) = concat (map (\<lambda>x. concat (map h (g x))) xs)"
  by (induction xs) auto

text \<open>Text in brackets that goes to the end of its line is captured whole.\<close>

lemma bracket_run:
  assumes c: "c \<noteq> 10" and m: "10 \<notin> set m" and aft: "aft = [] \<or> hd aft = 10"
  shows "concat (map (run t True LineEnd) (run t True (seq [Grp n any_text, lit [c]]) ([], b, m @ c # aft)))
         = [([(n, m)], c # rev m @ b, aft)]"
proof -
  let ?s = "m @ c # aft"
  let ?f = "\<lambda>k. concat (map (run t True LineEnd)
      (run t True (lit [c]) ([(n, take k ?s)], rev (take k ?s) @ b, drop k ?s)))"
  have w: "takeWhile not_newline ?s = m @ [c]"
    using m c aft by (cases aft) (auto simp: takeWhile_append not_newline_def)
  have other: "?f k = []" if k: "k \<in> set (rev [0..<Suc (Suc (length m))])" "k \<noteq> length m" for k
  proof (cases "k < length m")
    case True
    then have d: "drop k ?s = m ! k # drop (Suc k) m @ c # aft"
      by (simp add: Cons_nth_drop_Suc [symmetric])
    have "10 \<notin> set (drop (Suc k) m)" using m in_set_dropD by fast
    then have "\<not> line_end True (drop (Suc k) m @ c # aft)"
      using c by (cases "drop (Suc k) m") (auto simp: line_end_def)
    then show ?thesis unfolding d by (simp add: run_lit)
  next
    case False
    with k have "k = Suc (length m)" by auto
    then have "drop k ?s = aft" by simp
    then show ?thesis using aft c by (cases aft) (auto simp: run_lit)
  qed
  have le: "line_end True aft" using aft by (cases aft) (auto simp: line_end_def)
  have g: "run t True (Grp n any_text) ([], b, ?s) =
      map (\<lambda>k. ([(n, take k ?s)], rev (take k ?s) @ b, drop k ?s)) (rev [0..<Suc (Suc (length m))])"
    by (simp add: w del: upt_Suc append.simps take_append drop_append length_append) auto
  have "concat (map (run t True LineEnd) (run t True (seq [Grp n any_text, lit [c]]) ([], b, ?s)))
      = concat (map ?f (rev [0..<Suc (Suc (length m))]))"
    unfolding seq.simps run.simps(4) g concat_map_concat map_map comp_def by (rule refl)
  also have "\<dots> = ?f (length m)"
    by (rule concat_map_single) (simp, simp, rule other)
  also have "\<dots> = [([(n, m)], c # rev m @ b, aft)]"
    using le by (simp add: run_lit)
  finally show ?thesis .
qed

definition heading_line :: "bool \<Rightarrow> pystr \<Rightarrow> pystr \<Rightarrow> pystr" where
  "heading_line thin path m =
     text_of ''File: '' @ path @ (if thin then 91 # m @ [93] else 40 # m @ [41])"

lemma run_heading:
  assumes "line_start bef" "10 \<notin> set m" "aft = [] \<or> hd aft = 10"
  shows "\<exists>rest. run t True (heading_rx path) ([], bef, heading_line thin path m @ aft) =
    ([(if thin then 2 else 1, m)], rev (heading_line thin path m) @ bef, aft) # rest"
proof (cases thin)
  case True
  have b: "concat (map (run t True LineEnd) (run t True (seq [Grp 2 any_text, lit [93]]) ([], b, m @ 93 # aft)))
         = [([(2, m)], 93 # rev m @ b, aft)]" for b
    using assms by (intro bracket_run) auto
  show ?thesis
    using True assms(1) b by (simp add: heading_rx_def heading_line_def run_lit latin1_def)
next
  case False
  have b: "concat (map (run t True LineEnd) (run t True (seq [Grp 1 any_text, lit [41]]) ([], b, m @ 41 # aft)))
         = [([(1, m)], 41 # rev m @ b, aft)]" for b
    using assms by (intro bracket_run) auto
  show ?thesis
    using False assms(1) b by (simp add: heading_rx_def heading_line_def run_lit latin1_def)
qed


text \<open>No heading starts inside a line, nor on a line that does not begin like one.\<close>

definition heading_start :: "pystr \<Rightarrow> pystr" where
  "heading_start path = text_of ''File: '' @ path"

lemma heading_needs_start:
  "\<not> line_start bef \<or> \<not> starts_with (heading_start path) aft \<Longrightarrow>
     run t True (heading_rx path) ([], bef, aft) = []"
proof -
  have st: "starts_with (u @ v) s \<longleftrightarrow> starts_with u s \<and> starts_with v (drop (length u) s)" for u v s :: pystr
    by (induction u s rule: starts_with.induct) auto
  assume "\<not> line_start bef \<or> \<not> starts_with (heading_start path) aft"
  then show ?thesis
    by (auto simp: heading_rx_def heading_start_def run_lit st)
qed

lemma find_iter_inside:
  "10 \<notin> set u \<Longrightarrow> \<not> line_start bef \<Longrightarrow>
     find_iter t (heading_rx path) bef (u @ 10 # rest) = find_iter t (heading_rx path) (10 # rev u @ bef) rest"
proof (induction u arbitrary: bef)
  case Nil
  then show ?case
    by (simp add: find_iter.simps [of t _ bef "10 # rest"] heading_needs_start)
next
  case (Cons c u)
  then have "\<not> line_start (c # bef)" by (simp add: line_start_def)
  with Cons show ?case
    by (simp add: find_iter.simps [of t _ bef "c # u @ 10 # rest"] heading_needs_start)
qed

definition quiet_line :: "pystr \<Rightarrow> pystr \<Rightarrow> bool" where
  "quiet_line path l \<longleftrightarrow> 10 \<notin> set l \<and> \<not> starts_with (heading_start path) l"

lemma starts_with_line:
  "10 \<notin> set s \<Longrightarrow> \<not> starts_with s l \<Longrightarrow> \<not> starts_with s (l @ 10 # rest)"
  by (induction s l rule: starts_with.induct) auto

lemma find_iter_line:
  assumes "quiet_line path l" "10 \<notin> set path" "line_start bef"
  shows "find_iter t (heading_rx path) bef (l @ 10 # rest) =
    find_iter t (heading_rx path) (10 # rev l @ bef) rest"
proof -
  have "10 \<notin> set (heading_start path)"
    using assms by (simp add: heading_start_def latin1_def)
  with assms have n: "run t True (heading_rx path) ([], bef, l @ 10 # rest) = []"
    by (intro heading_needs_start) (simp add: quiet_line_def starts_with_line)
  show ?thesis
  proof (cases l)
    case Nil
    with n show ?thesis by (simp add: find_iter.simps [of t _ bef "10 # rest"])
  next
    case (Cons c u)
    with assms have "\<not> line_start (c # bef)" "10 \<notin> set u"
      by (auto simp: line_start_def quiet_line_def)
    from find_iter_inside [OF this(2,1)] n Cons show ?thesis
      by (simp add: find_iter.simps [of t _ bef "c # u @ 10 # rest"])
  qed
qed

definition text_lines :: "pystr list \<Rightarrow> pystr" where
  "text_lines ls = concat (map (\<lambda>l. l @ [10]) ls)"

lemma find_iter_lines:
  "list_all (quiet_line path) ls \<Longrightarrow> 10 \<notin> set path \<Longrightarrow> line_start bef \<Longrightarrow>
     find_iter t (heading_rx path) bef (text_lines ls @ rest) =
       find_iter t (heading_rx path) (rev (text_lines ls) @ bef) rest"
proof (induction ls arbitrary: bef)
  case (Cons l ls)
  moreover have "line_start (10 # rev l @ bef)" by (simp add: line_start_def)
  ultimately show ?case by (simp add: text_lines_def find_iter_line)
qed (simp add: text_lines_def)

definition archive_text :: "bool \<Rightarrow> pystr \<Rightarrow> (pystr \<times> pystr list) list \<Rightarrow> pystr" where
  "archive_text thin path ms =
     concat (map (\<lambda>(m, ls). heading_line thin path m @ [10] @ text_lines ls) ms)"

definition member_ok :: "pystr \<Rightarrow> pystr \<times> pystr list \<Rightarrow> bool" where
  "member_ok path x \<longleftrightarrow> 10 \<notin> set (fst x) \<and> list_all (quiet_line path) (snd x)"

lemma line_start_lines [simp]: "line_start (rev (text_lines ls) @ 10 # bef)"
  by (induction ls rule: rev_induct) (simp_all add: text_lines_def line_start_def)

lemma heading_not_empty: "heading_line thin path m \<noteq> []"
  by (simp add: heading_line_def)

lemma find_iter_member:
  assumes "member_ok path (m, ls)" "10 \<notin> set path" "line_start bef"
  shows "find_iter t (heading_rx path) bef (heading_line thin path m @ 10 # text_lines ls @ rest) =
    ([(if thin then 2 else 1, m)], length bef, length bef + length (heading_line thin path m)) #
      find_iter t (heading_rx path) (rev (heading_line thin path m @ 10 # text_lines ls) @ bef) rest"
proof -
  let ?h = "heading_line thin path m"
  let ?b = "rev ?h @ bef"
  have m: "10 \<notin> set m" and ls: "list_all (quiet_line path) ls"
    using assms(1) by (auto simp: member_ok_def)
  obtain r where r: "run t True (heading_rx path) ([], bef, ?h @ 10 # text_lines ls @ rest) =
      ([(if thin then 2 else 1, m)], ?b, 10 # text_lines ls @ rest) # r"
    using run_heading [OF assms(3) m, of "10 # text_lines ls @ rest" t path thin] by auto
  have nl: "\<not> line_start ?b" by (simp add: heading_line_def line_start_def)
  have "find_iter t (heading_rx path) ?b ([] @ 10 # text_lines ls @ rest) =
      find_iter t (heading_rx path) (10 # rev [] @ ?b) (text_lines ls @ rest)"
    by (rule find_iter_inside) (simp_all add: nl)
  also have "\<dots> = find_iter t (heading_rx path) (rev (text_lines ls) @ 10 # ?b) rest"
    using find_iter_lines [OF ls assms(2), of "10 # ?b"] by (simp add: line_start_def)
  finally have f: "find_iter t (heading_rx path) ?b (10 # text_lines ls @ rest) =
      find_iter t (heading_rx path) (rev (text_lines ls) @ 10 # ?b) rest" by simp
  have "0 < length ?h" using heading_not_empty by simp
  with r f show ?thesis
    by (simp add: find_iter.simps [of t _ bef "?h @ 10 # text_lines ls @ rest"])
qed

lemma find_iter_end: "find_iter t (heading_rx path) bef [] = []"
  by (subst find_iter.simps) (simp add: heading_needs_start heading_start_def latin1_def)

lemma units_of_members:
  assumes "10 \<notin> set path"
  shows "list_all (member_ok path) ms \<Longrightarrow> line_start bef \<Longrightarrow>
    archive_units t (rev bef @ archive_text thin path ms)
      (find_iter t (heading_rx path) bef (archive_text thin path ms)) =
    map (\<lambda>(m, ls). member_unit t (10 # text_lines ls) m) ms"
proof (induction ms arbitrary: bef)
  case Nil
  then show ?case by (simp add: archive_text_def find_iter_end)
next
  case (Cons x ms)
  obtain m ls where x: "x = (m, ls)" by (cases x)
  let ?h = "heading_line thin path m"
  let ?b = "rev (?h @ 10 # text_lines ls) @ bef"
  let ?hs = "find_iter t (heading_rx path) ?b (archive_text thin path ms)"
  have ok: "member_ok path (m, ls)" using Cons x by simp
  have out_eq: "archive_text thin path (x # ms) = ?h @ 10 # text_lines ls @ archive_text thin path ms"
    by (simp add: archive_text_def x)
  have ls: "line_start ?b" by simp
  have "?hs = [] \<and> ms = [] \<or> (\<exists>g e hs. ?hs = (g, length ?b, e) # hs)"
  proof (cases ms)
    case Nil
    then show ?thesis by (simp add: archive_text_def find_iter_end)
  next
    case (Cons y ys)
    with Cons.prems(1) have "member_ok path (fst y, snd y)" by simp
    from find_iter_member [OF this assms ls] show ?thesis
      by (auto simp: Cons archive_text_def split_def)
  qed
  then have nxt: "(case ?hs of [] \<Rightarrow> length (rev bef @ archive_text thin path (x # ms)) | (_, a', _) # _ \<Rightarrow> a')
      = length ?b"
    unfolding out_eq by (auto simp: archive_text_def)
  have sl: "slice (rev bef @ archive_text thin path (x # ms)) (length bef + length ?h) (length ?b)
      = 10 # text_lines ls"
    unfolding out_eq slice_def by simp
  have revb: "rev ?b @ archive_text thin path ms = rev bef @ archive_text thin path (x # ms)"
    unfolding out_eq by simp
  have "list_all (member_ok path) ms" using Cons.prems by simp
  from Cons.IH [OF this ls] have rest: "archive_units t (rev bef @ archive_text thin path (x # ms)) ?hs =
      map (\<lambda>(m, ls). member_unit t (10 # text_lines ls) m) ms"
    unfolding revb .
  have first: "find_iter t (heading_rx path) bef (archive_text thin path (x # ms)) =
      ([(if thin then 2 else 1, m)], length bef, length bef + length ?h) # ?hs"
    unfolding out_eq by (rule find_iter_member [OF ok assms Cons.prems(2)])
  show ?case
    unfolding first archive_units.simps nxt sl rest
    by (simp add: x heading_member_def group_def)
qed


text \<open>The text of a member begins on a line of its own: its first newline is no line of the tables.\<close>

lemma scan_empty_line: "scan_line t [] st = st"
proof -
  have "\<not> header_line []" "symbol_row t [] = None"
    by (simp_all add: header_line_def latin1_def symbol_row_def str_split_def)
  moreover have "\<not> rel_type_line t []"
    by (simp add: rel_type_line_def re_match_def latin1_def plus_def)
  moreover have "section_row t [] = None"
    by (simp add: section_row_def section_rx_def re_match_def latin1_def plus_def)
  ultimately show ?thesis by (simp add: scan_line_def)
qed

lemma parse_elf_newline: "parse_elf t (10 # out) m = parse_elf t out m"
  by (simp add: parse_elf_def line_break_def scan_empty_line)

section \<open>What a check sees\<close>

definition hit :: "re_tables \<Rightarrow> rx option \<Rightarrow> pystr set \<Rightarrow> bool" where
  "hit t pattern names \<longleftrightarrow> (\<exists>r. pattern = Some r \<and> (\<exists>n \<in> names. re_fullmatch t r n))"

definition driver :: pystr where "driver = text_of ''LLVMFuzzerRunDriver''"

lemma names_matching_Nil: "names_matching t p ns = [] \<longleftrightarrow> \<not> hit t p (set ns)"
proof -
  have "sort xs = [] \<longleftrightarrow> xs = []" for xs :: "pystr list"
    by (metis set_empty set_sort)
  then show ?thesis
    by (auto simp: names_matching_def hit_def filter_empty_conv split: option.splits)
qed

lemma names_matching_hd:
  assumes "names_matching t p ns = m # ms"
  shows "m \<in> set ns \<and> (\<exists>r. p = Some r \<and> re_fullmatch t r m)"
proof -
  obtain r where r: "p = Some r" using assms by (cases p) (auto simp: names_matching_def)
  have "m \<in> set (sort (filter (re_fullmatch t r) ns))"
    using assms by (simp add: names_matching_def r)
  with r show ?thesis by simp
qed

lemma fullmatch_lit: "re_fullmatch t (lit s) n \<longleftrightarrow> n = s"
proof -
  have "starts_with s n \<and> drop (length s) n = [] \<longleftrightarrow> n = s"
    by (auto simp: starts_with_iff)
  then show ?thesis by (auto simp: re_fullmatch_def run_lit split: if_splits)
qed

lemma libfuzzer_patterns: "check_patterns (text_of ''libfuzzer'') = (Some (word ''LLVMFuzzerRunDriver''), None)"
  by (simp add: check_patterns_def CHECKS_def latin1_def)

text \<open>Direct evidence, and any evidence at all.\<close>

definition direct_evidence :: "re_tables \<Rightarrow> pystr \<Rightarrow> evidence \<Rightarrow> bool" where
  "direct_evidence t check ev \<longleftrightarrow>
     hit t (snd (check_patterns check)) (set (ev_sections ev))
     \<or> hit t (fst (check_patterns check)) (set (ev_references ev))
     \<or> check = text_of ''libfuzzer'' \<and> map_of (ev_other_symbols ev) driver = Some (text_of ''definition'')"

definition some_evidence :: "re_tables \<Rightarrow> pystr \<Rightarrow> evidence \<Rightarrow> bool" where
  "some_evidence t check ev \<longleftrightarrow>
     direct_evidence t check ev \<or> hit t (fst (check_patterns check)) (dom (map_of (ev_other_symbols ev)))"

lemma driver_matches:
  "re_fullmatch t (word ''LLVMFuzzerRunDriver'') n \<longleftrightarrow> n = driver"
  by (simp add: fullmatch_lit driver_def)

lemma detect_by_evidence:
  "fst (detect t check ev) =
     (if direct_evidence t check ev then Found
      else if some_evidence t check ev then SymbolOnly
      else if ev_symbols_present ev then NotSeen else Unknown)"
proof -
  obtain sp cp where p: "check_patterns check = (sp, cp)" by (cases "check_patterns check")
  have dom: "dom (map_of (ev_other_symbols ev)) = set (map fst (ev_other_symbols ev))"
    by (simp add: dom_map_of_conv_image_fst)
  consider (sect) m ms where "names_matching t cp (ev_sections ev) = m # ms"
    | (ref) m ms where "names_matching t cp (ev_sections ev) = []"
        "names_matching t sp (ev_references ev) = m # ms"
    | (other) m ms where "names_matching t cp (ev_sections ev) = []"
        "names_matching t sp (ev_references ev) = []"
        "names_matching t sp (map fst (ev_other_symbols ev)) = m # ms"
    | (none) "names_matching t cp (ev_sections ev) = []"
        "names_matching t sp (ev_references ev) = []"
        "names_matching t sp (map fst (ev_other_symbols ev)) = []"
    by (metis neq_Nil_conv)
  then show ?thesis
  proof cases
    case sect
    then have "hit t cp (set (ev_sections ev))"
      using names_matching_Nil [of t cp "ev_sections ev"] by simp
    with sect show ?thesis by (simp add: detect_def p direct_evidence_def)
  next
    case ref
    then have "hit t sp (set (ev_references ev))"
      using names_matching_Nil [of t sp "ev_references ev"] by simp
    with ref show ?thesis by (simp add: detect_def p direct_evidence_def)
  next
    case other
    have h: "hit t sp (set (map fst (ev_other_symbols ev)))"
      using other names_matching_Nil [of t sp "map fst (ev_other_symbols ev)"] by simp
    have n: "\<not> hit t cp (set (ev_sections ev))" "\<not> hit t sp (set (ev_references ev))"
      using other names_matching_Nil by auto
    from names_matching_hd [OF other(3)] obtain v r
      where m: "map_of (ev_other_symbols ev) m = Some v" "sp = Some r" "re_fullmatch t r m"
      by (auto simp: map_of_eq_None_iff dest: weak_map_of_SomeI)
    have "check = text_of ''libfuzzer'' \<Longrightarrow> m = driver"
      using m p libfuzzer_patterns driver_matches by auto
    with other m n h show ?thesis
      by (auto simp: detect_def p direct_evidence_def some_evidence_def dom)
  next
    case none
    have no: "\<not> hit t sp (set (map fst (ev_other_symbols ev)))"
      "\<not> hit t cp (set (ev_sections ev))" "\<not> hit t sp (set (ev_references ev))"
      using none names_matching_Nil by auto
    have "check = text_of ''libfuzzer'' \<Longrightarrow>
        map_of (ev_other_symbols ev) driver \<noteq> Some (text_of ''definition'')"
    proof
      assume c: "check = text_of ''libfuzzer''"
        and d: "map_of (ev_other_symbols ev) driver = Some (text_of ''definition'')"
      have "driver \<in> set (map fst (ev_other_symbols ev))"
        using d dom by blast
      moreover have "sp = Some (word ''LLVMFuzzerRunDriver'')"
        using c p libfuzzer_patterns by simp
      ultimately have "hit t sp (set (map fst (ev_other_symbols ev)))"
        using driver_matches by (force simp: hit_def)
      with no(1) show False by simp
    qed
    then show ?thesis
      using none no by (auto simp: detect_def p direct_evidence_def some_evidence_def dom)
  qed
qed


section \<open>Properties\<close>

text \<open>
  C33. \<open>parse_elf\<close> accepts exactly the output with one ELF header and no LTO section, gives
  the unit the member it was asked for, skips it exactly when it is Rust metadata without
  run-time sections, and otherwise its evidence is that of the rows, whatever their order:
  the strong references are the undefined symbols that are not weak, another symbol is a
  definition when any row defines it and a weak reference otherwise, the sections are those
  that are not empty, and symbols are present when a .symtab section is.
\<close>

theorem parse_elf_reads_rows:
  "case parse_elf t out m of
     Inl e \<Rightarrow> length (filter header_line (split_lines out)) \<noteq> 1 \<or> lto_object t (split_lines out)
   | Inr u \<Rightarrow> length (filter header_line (split_lines out)) = 1 \<and> \<not> lto_object t (split_lines out)
       \<and> unit_member u = m \<and> unit_error u = []
       \<and> (case unit_evidence u of
            None \<Rightarrow> rust_metadata t (split_lines out) \<and> unit_skipped u \<noteq> []
          | Some ev \<Rightarrow> \<not> rust_metadata t (split_lines out) \<and> unit_skipped u = []
              \<and> rows_evidence t (split_lines out) ev)"
  by (rule parse_elf_outcome)

lemma line_start_text_lines: "line_start (rev (text_lines ls))"
  by (induction ls rule: rev_induct) (simp_all add: text_lines_def line_start_def)

lemma readelf_diagnostic_ok: "readelf_diagnostic 0 [] = []"
  by (simp add: readelf_diagnostic_def str_strip_def strip_by_def rstrip_by_def)

text \<open>
  C34. The members of an archive are never combined: from the output readelf prints for an
  archive, regular or thin, after any preamble, \<open>inspect\<close> makes one unit for each heading, in
  their order and with repeated names kept, and each unit is read from its own member's lines
  alone.
\<close>

theorem archive_members_separate:
  assumes "10 \<notin> set path" "list_all (member_ok path) ms" "ms \<noteq> []" "list_all (quiet_line path) pre"
  shows "inspect_output t path ArchiveFile (0, text_lines pre @ archive_text thin path ms, []) =
    map (\<lambda>(m, ls). member_unit t (text_lines ls) m) ms"
proof -
  let ?b = "rev (text_lines pre)"
  let ?out = "text_lines pre @ archive_text thin path ms"
  have "find_iter t (heading_rx path) [] ?out = find_iter t (heading_rx path) ?b (archive_text thin path ms)"
    using find_iter_lines [OF assms(4,1), of "[]"] by (simp add: line_start_def)
  moreover have "archive_units t ?out (find_iter t (heading_rx path) ?b (archive_text thin path ms)) =
      map (\<lambda>(m, ls). member_unit t (10 # text_lines ls) m) ms"
    using units_of_members [OF assms(1,2) line_start_text_lines [of pre]] by simp
  moreover have "member_unit t (10 # x) m = member_unit t x m" for x m
    by (simp add: member_unit_def parse_elf_newline)
  ultimately show ?thesis
    using assms(3) by (simp add: inspect_output_def readelf_diagnostic_ok split_def)
qed

lemma archive_members_separate_witness:
  "inspect_output plain_tables [97] ArchiveFile
     (0, text_lines [[]] @ archive_text True [97] [([98], []), ([98], [[99]])], []) =
   [member_unit plain_tables (text_lines []) [98], member_unit plain_tables (text_lines [[99]]) [98]]"
proof -
  have "list_all (member_ok [97]) [([98], []), ([98], [[99]])]" "list_all (quiet_line [97]) [[]]"
    by (simp_all add: member_ok_def quiet_line_def heading_start_def latin1_def)
  from archive_members_separate [OF _ this(1) _ this(2), of plain_tables True]
  show ?thesis by simp
qed

definition strong_names :: "re_tables \<Rightarrow> pystr list \<Rightarrow> pystr set" where
  "strong_names t ls =
     {n. \<exists>b. (b, text_of ''UND'', n) \<in> set (symbol_rows t ls) \<and> b \<noteq> text_of ''WEAK''}"

definition symbol_names :: "re_tables \<Rightarrow> pystr list \<Rightarrow> pystr set" where
  "symbol_names t ls = {n. \<exists>b x. (b, x, n) \<in> set (symbol_rows t ls)}"

definition filled_sections :: "re_tables \<Rightarrow> pystr list \<Rightarrow> pystr set" where
  "filled_sections t ls = {n. \<exists>e f. (n, e, f) \<in> set (section_rows t ls) \<and> e \<noteq> 0}"

lemma hit_Un: "hit t p (A \<union> B) \<longleftrightarrow> hit t p A \<or> hit t p B"
  by (auto simp: hit_def)

lemma list_ex_defined:
  "list_ex (defined_in n) rs \<longleftrightarrow> (\<exists>b x. (b, x, n) \<in> set rs \<and> x \<noteq> text_of ''UND'')"
  by (induction rs) (auto simp: defined_in_def)

lemma list_ex_weak: "list_ex (weak_in n) rs \<longleftrightarrow> (text_of ''WEAK'', text_of ''UND'', n) \<in> set rs"
  by (induction rs) (auto simp: weak_in_def)

lemma rows_evidence_names:
  assumes "rows_evidence t ls ev"
  shows "set (ev_references ev) = strong_names t ls" "set (ev_sections ev) = filled_sections t ls"
    "set (ev_references ev) \<union> dom (map_of (ev_other_symbols ev)) = symbol_names t ls"
    "map_of (ev_other_symbols ev) driver = Some (text_of ''definition'') \<longleftrightarrow>
       list_ex (defined_in driver) (symbol_rows t ls)"
proof -
  have m: "map_of (ev_other_symbols ev) n =
        (if list_ex (defined_in n) (symbol_rows t ls) then Some (text_of ''definition'')
         else if list_ex (weak_in n) (symbol_rows t ls) then Some (text_of ''weak reference'')
         else None)" for n
    using assms by (simp add: rows_evidence_def)
  show r: "set (ev_references ev) = strong_names t ls" "set (ev_sections ev) = filled_sections t ls"
    using assms by (simp_all add: rows_evidence_def strong_names_def filled_sections_def)
  have "text_of ''weak reference'' \<noteq> text_of ''definition''" by (simp add: latin1_def)
  with m [of driver]
  show "map_of (ev_other_symbols ev) driver = Some (text_of ''definition'') \<longleftrightarrow>
       list_ex (defined_in driver) (symbol_rows t ls)"
    by auto
  have d: "n \<in> dom (map_of (ev_other_symbols ev)) \<longleftrightarrow>
      list_ex (defined_in n) (symbol_rows t ls) \<or> list_ex (weak_in n) (symbol_rows t ls)" for n
    by (simp add: domIff m)
  have "n \<in> strong_names t ls \<or> n \<in> dom (map_of (ev_other_symbols ev)) \<longleftrightarrow> n \<in> symbol_names t ls" for n
    unfolding d list_ex_defined list_ex_weak strong_names_def symbol_names_def by blast
  then show "set (ev_references ev) \<union> dom (map_of (ev_other_symbols ev)) = symbol_names t ls"
    using r(1) by blast
qed

text \<open>
  C35. From the tables to the verdict: an item passes \<open>present\<close> only with a filled
  instrumentation section, a strong reference or the driver's definition in its own tables,
  and passes \<open>absent\<close> only when its symbol table is there and neither a filled section nor a
  symbol of any kind matches. \<open>ignore\<close> always passes.
\<close>

theorem policy_from_tables:
  assumes "parse_elf t out m = Inr u" "unit_evidence u = Some ev"
    and "ls = split_lines out" "check_patterns check = (symbol_rx, sect_rx)"
  shows "(policy_failed Present (fst (detect t check ev)) \<longleftrightarrow>
      \<not> (hit t sect_rx (filled_sections t ls) \<or> hit t symbol_rx (strong_names t ls)
         \<or> check = text_of ''libfuzzer'' \<and> list_ex (defined_in driver) (symbol_rows t ls)))
    \<and> (policy_failed Absent (fst (detect t check ev)) \<longleftrightarrow>
      \<not> ((\<exists>e f. (text_of ''.symtab'', e, f) \<in> set (section_rows t ls))
         \<and> \<not> hit t sect_rx (filled_sections t ls) \<and> \<not> hit t symbol_rx (symbol_names t ls)))
    \<and> \<not> policy_failed Ignore (fst (detect t check ev))"
proof (intro conjI)
  have ev: "rows_evidence t ls ev"
    using parse_elf_outcome [where t = t and out = out and m = m] assms by simp
  note n = rows_evidence_names [OF ev]
  have pats: "fst (check_patterns check) = symbol_rx" "snd (check_patterns check) = sect_rx"
    using assms(4) by simp_all
  have sym: "ev_symbols_present ev \<longleftrightarrow> (\<exists>e f. (text_of ''.symtab'', e, f) \<in> set (section_rows t ls))"
    using ev by (simp add: rows_evidence_def)
  have direct: "direct_evidence t check ev \<longleftrightarrow>
      hit t sect_rx (filled_sections t ls) \<or> hit t symbol_rx (strong_names t ls)
      \<or> check = text_of ''libfuzzer'' \<and> list_ex (defined_in driver) (symbol_rows t ls)"
    by (simp add: direct_evidence_def pats n)
  show "policy_failed Present (fst (detect t check ev)) \<longleftrightarrow>
      \<not> (hit t sect_rx (filled_sections t ls) \<or> hit t symbol_rx (strong_names t ls)
         \<or> check = text_of ''libfuzzer'' \<and> list_ex (defined_in driver) (symbol_rows t ls))"
    unfolding detect_by_evidence policy_failed_def direct [symmetric] by simp
  have "check = text_of ''libfuzzer'' \<and> list_ex (defined_in driver) (symbol_rows t ls)
      \<Longrightarrow> hit t symbol_rx (symbol_names t ls)"
  proof -
    assume a: "check = text_of ''libfuzzer'' \<and> list_ex (defined_in driver) (symbol_rows t ls)"
    then have "symbol_rx = Some (word ''LLVMFuzzerRunDriver'')"
      using pats libfuzzer_patterns by auto
    moreover have "driver \<in> symbol_names t ls"
      using a by (auto simp: list_ex_iff defined_in_def symbol_names_def)
    ultimately show ?thesis using driver_matches by (force simp: hit_def)
  qed
  then have "some_evidence t check ev \<longleftrightarrow>
      hit t sect_rx (filled_sections t ls) \<or> hit t symbol_rx (symbol_names t ls)"
    unfolding some_evidence_def direct pats n(3) [symmetric] hit_Un n(1) by blast
  moreover have "direct_evidence t check ev \<Longrightarrow> some_evidence t check ev"
    by (simp add: some_evidence_def)
  ultimately show "policy_failed Absent (fst (detect t check ev)) \<longleftrightarrow>
      \<not> ((\<exists>e f. (text_of ''.symtab'', e, f) \<in> set (section_rows t ls))
         \<and> \<not> hit t sect_rx (filled_sections t ls) \<and> \<not> hit t symbol_rx (symbol_names t ls))"
    unfolding detect_by_evidence policy_failed_def sym [symmetric] by auto
  show "\<not> policy_failed Ignore (fst (detect t check ev))"
    by (simp add: policy_failed_def)
qed


text \<open>An object with one strong reference to MemorySanitizer and no symbol table.\<close>

definition sample_out :: pystr where
  "sample_out = text_lines [text_of ''ELF Header:'', text_of ''1: 0 0 F GLOBAL D UND __msan_init'']"

definition sample_evidence :: evidence where
  "sample_evidence = \<lparr>ev_references = [text_of ''__msan_init''], ev_other_symbols = [], ev_sections = [],
     ev_symbols_present = False\<rparr>"

lemma sample_rows:
  "split_lines sample_out = [text_of ''ELF Header:'', text_of ''1: 0 0 F GLOBAL D UND __msan_init'']"
  "section_row plain_tables (text_of ''ELF Header:'') = None"
  "section_row plain_tables (text_of ''1: 0 0 F GLOBAL D UND __msan_init'') = None"
  "symbol_row plain_tables (text_of ''ELF Header:'') = None"
  "symbol_row plain_tables (text_of ''1: 0 0 F GLOBAL D UND __msan_init'') =
     Some (text_of ''GLOBAL'', text_of ''UND'', text_of ''__msan_init'')"
  by (simp_all add: sample_out_def text_lines_def latin1_def line_break_def section_row_def
      section_rx_def re_match_def plus_def str_space_def symbol_row_def str_split_def
      re_fullmatch_def is_digit_def cut_def Let_def)

lemma sample_parse:
  "parse_elf plain_tables sample_out [] = Inr \<lparr>unit_member = [], unit_evidence = Some sample_evidence,
     unit_error = [], unit_skipped = []\<rparr>"
proof -
  have "\<not> rel_type_line plain_tables l" if "l \<in> set (split_lines sample_out)" for l
    using that unfolding sample_rows
    by (auto simp: rel_type_line_def latin1_def re_match_def plus_def str_space_def)
  then show ?thesis
    unfolding parse_elf_def sample_rows
    by (simp add: Let_def scan_line_def sample_rows elf_start_def scan_symbol_def set_add_def
        header_line_def sample_evidence_def) (simp add: latin1_def)
qed

lemma msan_patterns:
  "check_patterns (text_of ''msan'') = (Some (seq [word ''__msan_'', any_text]), None)"
  by (simp add: check_patterns_def CHECKS_def latin1_def)

lemma policy_from_tables_witness:
  "\<not> policy_failed Present (fst (detect plain_tables (text_of ''msan'') sample_evidence))"
proof -
  have "re_fullmatch plain_tables (seq [word ''__msan_'', any_text]) (text_of ''__msan_init'')"
    by (simp add: re_fullmatch_def latin1_def not_newline_def)
  moreover have "text_of ''__msan_init'' \<in> strong_names plain_tables (split_lines sample_out)"
    unfolding sample_rows strong_names_def by (simp add: sample_rows) (simp add: latin1_def)
  ultimately have "hit plain_tables (Some (seq [word ''__msan_'', any_text]))
      (strong_names plain_tables (split_lines sample_out))"
    unfolding hit_def by blast
  with policy_from_tables [OF sample_parse _ refl msan_patterns, of sample_evidence]
  show ?thesis by simp
qed

lemma parse_elf_reads_rows_witness:
  "rows_evidence plain_tables (split_lines sample_out) sample_evidence"
  using parse_elf_reads_rows [of sample_out plain_tables "[]"] unfolding sample_parse by simp

end
