(* ===== verification/Fnmatch.thy ===== *)
theory Fnmatch
  imports Text
begin

text \<open>
  \<open>fnmatch.fnmatchcase\<close>, which decides the exclusions and the path overrides of
  check_build.py: the tokens of a shell pattern and the names they match. Python turns a
  pattern into a regular expression; the quirks of that translation that a name can show are
  kept: an unclosed \<open>[\<close> is itself, a range whose ends are in the wrong order disappears, and
  the negation is decided after that.
\<close>

section \<open>Tokens\<close>

text \<open>A set is its negation mark, its ranges and its single characters.\<close>

datatype glob_token =
    Star
  | AnyChar
  | Exactly nat
  | OneOf bool "(nat \<times> nat) list" "nat list"
  | Never

text \<open>
  \<open>stuff\<close>, the inside of \<open>[...]\<close>: up to the first closing bracket that is neither the first
  character nor the first after \<open>!\<close>. \<open>None\<close> when there is none.
\<close>

definition set_inside :: "pystr \<Rightarrow> (pystr \<times> pystr) option" where
  "set_inside p =
     (let skip = (if starts_with [33, 93] p then 2
                  else if starts_with [33] p \<or> starts_with [93] p then 1 else 0);
          n = skip + length (takeWhile (\<lambda>c. c \<noteq> 93) (drop skip p))
      in if n < length p then Some (take n p, drop (Suc n) p) else None)"

text \<open>
  The pieces between the hyphens that make ranges: the search for the next hyphen starts
  behind the first character of a piece, so a hyphen there is a character.
\<close>

fun find_hyphen :: "nat \<Rightarrow> pystr \<Rightarrow> nat option" where
  "find_hyphen k [] = None"
| "find_hyphen 0 (c # cs) = (if c = 45 then Some 0 else map_option Suc (find_hyphen 0 cs))"
| "find_hyphen (Suc k) (c # cs) = map_option Suc (find_hyphen k cs)"

lemma find_hyphen_less: "find_hyphen k s = Some j \<Longrightarrow> j < length s \<and> k \<le> j"
  by (induction k s arbitrary: j rule: find_hyphen.induct) (auto split: if_splits)

function chunks :: "nat \<Rightarrow> pystr \<Rightarrow> pystr list" where
  "chunks k s =
     (case find_hyphen k s of
        None \<Rightarrow> [s]
      | Some j \<Rightarrow> take j s # chunks 2 (drop (Suc j) s))"
  by pat_completeness auto
termination
  by (relation "measure (\<lambda>(k, s). length s)") (auto dest: find_hyphen_less)

declare chunks.simps [simp del]

text \<open>An empty last piece: the hyphen before it belongs to the piece before.\<close>

fun close_chunks :: "pystr list \<Rightarrow> pystr list" where
  "close_chunks [] = []"
| "close_chunks [c] = [c]"
| "close_chunks (c # d # cs) =
     (if cs = [] \<and> d = [] then [c @ [45]] else c # close_chunks (d # cs))"

text \<open>Ranges in the wrong order are removed, from the right.\<close>

fun merge_chunks :: "pystr list \<Rightarrow> pystr list" where
  "merge_chunks [] = []"
| "merge_chunks (c # cs) =
     (case merge_chunks cs of
        [] \<Rightarrow> [c]
      | d # ds \<Rightarrow> if last c > hd d then (butlast c @ tl d) # ds else c # d # ds)"

fun chunk_ranges :: "pystr list \<Rightarrow> (nat \<times> nat) list" where
  "chunk_ranges (c # d # cs) = (last c, hd d) # chunk_ranges (d # cs)"
| "chunk_ranges _ = []"

definition set_token :: "pystr \<Rightarrow> glob_token" where
  "set_token stuff =
     (let cs = (if 45 \<in> set stuff
                then merge_chunks (close_chunks (chunks (if hd stuff = 33 then 2 else 1) stuff))
                else [stuff])
      in if cs = [[]] then Never
         else if cs = [[33]] then AnyChar
         else if starts_with [33] (hd cs) then OneOf True (chunk_ranges cs) (tl (concat cs))
         else OneOf False (chunk_ranges cs) (concat cs))"

text \<open>The tokens of a pattern. Consecutive stars are one.\<close>

lemma set_inside_shorter: "set_inside p = Some (s, r) \<Longrightarrow> length r < length p"
  by (auto simp: set_inside_def Let_def split: if_splits)

function glob_tokens :: "pystr \<Rightarrow> glob_token list" where
  "glob_tokens [] = []"
| "glob_tokens (c # p) =
     (if c = 42 then (case glob_tokens p of Star # ts \<Rightarrow> Star # ts | ts \<Rightarrow> Star # ts)
      else if c = 63 then AnyChar # glob_tokens p
      else if c = 91 then
        (case set_inside p of
           None \<Rightarrow> Exactly 91 # glob_tokens p
         | Some (stuff, r) \<Rightarrow> set_token stuff # glob_tokens r)
      else Exactly c # glob_tokens p)"
  by pat_completeness auto
termination
  by (relation "measure length") (auto dest: set_inside_shorter)

section \<open>Matching\<close>

fun token_ok :: "glob_token \<Rightarrow> nat \<Rightarrow> bool" where
  "token_ok Star c = True"
| "token_ok AnyChar c = True"
| "token_ok (Exactly d) c = (c = d)"
| "token_ok (OneOf neg rs cs) c = ((c \<in> set cs \<or> list_ex (\<lambda>(a, b). a \<le> c \<and> c \<le> b) rs) \<noteq> neg)"
| "token_ok Never c = False"

fun glob_match :: "glob_token list \<Rightarrow> pystr \<Rightarrow> bool" where
  "glob_match [] s = (s = [])"
| "glob_match (t # ts) [] = (t = Star \<and> glob_match ts [])"
| "glob_match (t # ts) (c # s) =
     (if t = Star then glob_match ts (c # s) \<or> glob_match (t # ts) s
      else token_ok t c \<and> glob_match ts s)"

definition fnmatchcase :: "pystr \<Rightarrow> pystr \<Rightarrow> bool" where
  "fnmatchcase name pat = glob_match (glob_tokens pat) name"

text \<open>A star stands for any text.\<close>

lemma glob_match_Star: "glob_match (Star # ts) s \<longleftrightarrow> (\<exists>u v. s = u @ v \<and> glob_match ts v)"
proof (induction s)
  case (Cons c s)
  show ?case
  proof
    assume "glob_match (Star # ts) (c # s)"
    then consider "glob_match ts (c # s)" | u v where "s = u @ v" "glob_match ts v"
      using Cons by auto
    then show "\<exists>u v. c # s = u @ v \<and> glob_match ts v"
    proof cases
      case 1
      then have "c # s = [] @ (c # s) \<and> glob_match ts (c # s)" by simp
      then show ?thesis by blast
    next
      case (2 u v)
      then have "c # s = (c # u) @ v \<and> glob_match ts v" by simp
      then show ?thesis by blast
    qed
  next
    assume "\<exists>u v. c # s = u @ v \<and> glob_match ts v"
    then obtain u v where uv: "c # s = u @ v" "glob_match ts v" by blast
    then show "glob_match (Star # ts) (c # s)"
      using Cons by (cases u) auto
  qed
qed auto

lemma glob_match_append: "glob_match ts s \<Longrightarrow> glob_match us r \<Longrightarrow> glob_match (ts @ us) (s @ r)"
proof (induction ts s rule: glob_match.induct)
  case (3 t ts c s)
  then show ?case by (cases "t = Star") auto
next
  case (2 t ts)
  then show ?case by (auto simp: glob_match_Star intro: exI [of _ "[]"])
qed simp

text \<open>A pattern without metacharacters matches exactly itself.\<close>

lemma glob_tokens_plain:
  "list_all (\<lambda>c. c \<notin> {42, 63, 91}) p \<Longrightarrow> glob_tokens p = map Exactly p"
  by (induction p) auto

lemma fnmatchcase_plain:
  assumes "list_all (\<lambda>c. c \<notin> {42, 63, 91}) p"
  shows "fnmatchcase s p \<longleftrightarrow> s = p"
proof -
  have "glob_match (map Exactly q) s \<longleftrightarrow> s = q" for q s
  proof (induction q arbitrary: s)
    case (Cons c q)
    then show ?case by (cases s) auto
  qed simp
  with assms show ?thesis by (simp add: fnmatchcase_def glob_tokens_plain)
qed

end
