(* ===== verification/Config.thy ===== *)
theory Config
  imports Evidence Fnmatch
begin

text \<open>
  The configuration of check_build.py: paths as \<open>pathlib\<close> and \<open>os.path\<close> see them, the INI
  syntax of \<open>configparser\<close> (strict, without interpolation), \<open>load_config\<close> with its checks in
  the order the code makes them, and the expectations of an item (\<open>effective_modes\<close>). The
  text of the file, decoded and with its newlines translated, is the input.
\<close>

section \<open>Paths\<close>

text \<open>An absolute path: its root, one slash or exactly two, and its parts.\<close>

datatype path = Path (path_root: pystr) (path_parts: "pystr list")

definition name_parts :: "pystr \<Rightarrow> pystr list" where
  "name_parts s = filter (\<lambda>p. p \<notin> {[], [46]}) (split_on 47 s)"

text \<open>\<open>base / name\<close>\<close>

definition path_join :: "path \<Rightarrow> pystr \<Rightarrow> path" where
  "path_join base s =
     (if starts_with [47, 47] s \<and> \<not> starts_with [47, 47, 47] s then Path [47, 47] (name_parts s)
      else if starts_with [47] s then Path [47] (name_parts s)
      else Path (path_root base) (path_parts base @ name_parts s))"

definition path_str :: "path \<Rightarrow> pystr" where
  "path_str p = path_root p @ join_with [47] (path_parts p)"

definition path_name :: "path \<Rightarrow> pystr" where
  "path_name p = (if path_parts p = [] then [] else last (path_parts p))"

definition path_parent :: "path \<Rightarrow> path" where
  "path_parent p = Path (path_root p) (butlast (path_parts p))"

text \<open>\<open>path.suffix\<close>: from the last dot, unless it is the first or the last character.\<close>

definition path_suffix :: "path \<Rightarrow> pystr" where
  "path_suffix p =
     (let s = path_name p; ext = rev (takeWhile (\<lambda>c. c \<noteq> 46) (rev s))
      in if ext \<noteq> [] \<and> length ext + 1 < length s then 46 # ext else [])"

text \<open>\<open>os.path.normpath\<close> of an absolute path, and \<open>os.path.relpath\<close> as \<open>as_posix\<close> text.\<close>

definition dotdot :: pystr where "dotdot = [46, 46]"

definition norm_parts :: "pystr list \<Rightarrow> pystr list" where
  "norm_parts ps = fold (\<lambda>p acc. if p = dotdot then butlast acc else acc @ [p]) ps []"

fun strip_common :: "'a list \<Rightarrow> 'a list \<Rightarrow> 'a list \<times> 'a list" where
  "strip_common (x # xs) (y # ys) = (if x = y then strip_common xs ys else (x # xs, y # ys))"
| "strip_common xs ys = (xs, ys)"

definition rel_path :: "path \<Rightarrow> path \<Rightarrow> pystr" where
  "rel_path p base =
     (case strip_common (norm_parts (path_parts base)) (norm_parts (path_parts p)) of
        (up, down) \<Rightarrow>
          (let rel = replicate (length up) dotdot @ down
           in if rel = [] then [46] else join_with [47] rel))"

section \<open>The INI syntax\<close>

datatype ini_error =
    MissingSectionHeader
  | DuplicateSection pystr
  | DuplicateOption pystr pystr
  | ParsingErrors

text \<open>
  The parser between two lines: the sections and the defaults read so far with the lines of
  each value, the section and the option that a continuation would belong to (an empty option
  name is none), the indentation of the last line that was no continuation, and whether a
  line was in error. The parser is fresh, so the names it has added are those it holds.
\<close>

type_synonym ini_options = "(pystr \<times> pystr list) list"

record ini_state =
  ini_sections :: "(pystr \<times> ini_options) list"
  ini_defaults :: ini_options
  cur_section :: "pystr option"
  cur_option :: pystr
  ini_indent :: nat
  ini_failed :: bool

definition DEFAULT_SECTION :: pystr where "DEFAULT_SECTION = text_of ''DEFAULT''"

definition ini_start :: ini_state where
  "ini_start = \<lparr>ini_sections = [], ini_defaults = [], cur_section = None, cur_option = [],
     ini_indent = 0, ini_failed = False\<rparr>"

definition section_options :: "ini_state \<Rightarrow> pystr \<Rightarrow> ini_options" where
  "section_options st s =
     (if s = DEFAULT_SECTION then ini_defaults st
      else case map_of (ini_sections st) s of None \<Rightarrow> [] | Some os \<Rightarrow> os)"

definition put_options :: "pystr \<Rightarrow> ini_options \<Rightarrow> ini_state \<Rightarrow> ini_state" where
  "put_options s os st =
     (if s = DEFAULT_SECTION then st\<lparr>ini_defaults := os\<rparr>
      else st\<lparr>ini_sections := dict_set s os (ini_sections st)\<rparr>)"

text \<open>\<open>cursect[optname].append(value)\<close>\<close>

definition append_value :: "pystr \<Rightarrow> ini_state \<Rightarrow> ini_state" where
  "append_value v st =
     (case cur_section st of
        None \<Rightarrow> st
      | Some s \<Rightarrow>
          let os = section_options st s in
          if cur_option st = [] then st
          else put_options s (dict_set (cur_option st)
            ((case map_of os (cur_option st) of None \<Rightarrow> [] | Some ls \<Rightarrow> ls) @ [v]) os) st)"

text \<open>\<open>[header]\<close> at the front of a line: up to its last closing bracket.\<close>

definition section_header :: "pystr \<Rightarrow> pystr option" where
  "section_header v =
     (let inner = rev (dropWhile (\<lambda>c. c \<noteq> 93) (rev (tl v)))
      in if starts_with [91] v \<and> length inner \<ge> 2 then Some (butlast inner) else None)"

text \<open>\<open>option = value\<close> or \<open>option : value\<close>, at the first of the two delimiters.\<close>

definition option_line :: "pystr \<Rightarrow> (pystr \<times> pystr) option" where
  "option_line v =
     (case dropWhile (\<lambda>c. c \<noteq> 61 \<and> c \<noteq> 58) v of
        [] \<Rightarrow> None
      | _ # r \<Rightarrow> Some (rstrip_by str_space (takeWhile (\<lambda>c. c \<noteq> 61 \<and> c \<noteq> 58) v), str_strip r))"

definition ini_line :: "unicode \<Rightarrow> pystr \<Rightarrow> ini_state \<Rightarrow> ini_error + ini_state" where
  "ini_line u line st =
     (let v = str_strip line; indent = length (takeWhile str_space line) in
      if starts_with [35] v \<or> starts_with [59] v then Inr st
      else if v = [] then Inr (append_value [] st)
      else if cur_section st \<noteq> None \<and> cur_option st \<noteq> [] \<and> indent > ini_indent st then
        Inr (append_value v st)
      else
        let st = st\<lparr>ini_indent := indent\<rparr> in
        case section_header v of
          Some s \<Rightarrow>
            if s \<in> fst ` set (ini_sections st) then Inl (DuplicateSection s)
            else Inr ((if s = DEFAULT_SECTION then st else put_options s [] st)
                        \<lparr>cur_section := Some s, cur_option := []\<rparr>)
        | None \<Rightarrow>
          (case cur_section st of
             None \<Rightarrow> Inl MissingSectionHeader
           | Some s \<Rightarrow>
             (case option_line v of
                None \<Rightarrow> Inr (st\<lparr>ini_failed := True\<rparr>)
              | Some (name, value) \<Rightarrow>
                let name = str_lower u name;
                    st = (if name = [] then st\<lparr>ini_failed := True\<rparr> else st) in
                if name \<in> fst ` set (section_options st s) then Inl (DuplicateOption s name)
                else Inr ((put_options s (dict_set name [value] (section_options st s)) st)
                            \<lparr>cur_option := name\<rparr>))))"

fun ini_lines :: "unicode \<Rightarrow> pystr list \<Rightarrow> ini_state \<Rightarrow> ini_error + ini_state" where
  "ini_lines u [] st = Inr st"
| "ini_lines u (l # ls) st =
     (case ini_line u l st of Inl e \<Rightarrow> Inl e | Inr st \<Rightarrow> ini_lines u ls st)"

text \<open>Lines joined again, without white space at the end.\<close>

definition joined :: "ini_options \<Rightarrow> (pystr \<times> pystr) list" where
  "joined os = map (\<lambda>(k, ls). (k, rstrip_by str_space (join_with [10] ls))) os"

type_synonym ini_section = "pystr \<times> (pystr \<times> pystr) list"

text \<open>\<open>read_file\<close>: the defaults and the sections.\<close>

definition file_lines :: "pystr \<Rightarrow> pystr list" where
  "file_lines s = (let ls = split_on 10 s in if last ls = [] then butlast ls else ls)"

definition read_ini :: "unicode \<Rightarrow> pystr \<Rightarrow> ini_error + (pystr \<times> pystr) list \<times> ini_section list" where
  "read_ini u s =
     (case ini_lines u (file_lines s) ini_start of
        Inl e \<Rightarrow> Inl e
      | Inr st \<Rightarrow>
          if ini_failed st then Inl ParsingErrors
          else Inr (joined (ini_defaults st), map (\<lambda>(s, os). (s, joined os)) (ini_sections st)))"

section \<open>load_config\<close>

datatype config_error =
    IniError ini_error
  | DefaultSection
  | EmptyGlob
  | UnknownSection pystr
  | UnknownOption pystr pystr
  | NothingConfigured
  | InvalidMode pystr pystr
  | EmptyReport

definition stripped_lines :: "pystr \<Rightarrow> pystr list" where
  "stripped_lines value = filter (\<lambda>l. l \<noteq> []) (map str_strip (split_lines value))"

definition LEGACY_MODES :: "(pystr \<times> pystr) list" where
  "LEGACY_MODES = [(text_of ''require'', text_of ''present''), (text_of ''forbid'', text_of ''absent''),
     (text_of ''report'', text_of ''ignore'')]"

definition MODES :: "(pystr \<times> check_mode) list" where
  "MODES = [(text_of ''present'', Present), (text_of ''absent'', Absent), (text_of ''ignore'', Ignore)]"

definition parse_mode :: "pystr \<Rightarrow> check_mode option" where
  "parse_mode value =
     (let v = str_strip value
      in map_of MODES (case map_of LEGACY_MODES v of None \<Rightarrow> v | Some v' \<Rightarrow> v'))"

definition CHECKS_PREFIX :: pystr where "CHECKS_PREFIX = text_of ''checks:''"

definition allowed_keys :: "pystr \<Rightarrow> pystr list option" where
  "allowed_keys s =
     map_of [(text_of ''scan'', [text_of ''object_dirs'', text_of ''binary_paths'', text_of ''exclude'']),
             (text_of ''checks'', check_names), (text_of ''output'', [text_of ''report''])] s"

text \<open>The path pattern of a \<open>[checks:PATH_GLOB]\<close> section.\<close>

definition section_glob :: "pystr \<Rightarrow> pystr" where
  "section_glob s = str_strip (drop (length CHECKS_PREFIX) s)"

definition section_keys :: "pystr \<Rightarrow> config_error + pystr list" where
  "section_keys s =
     (if starts_with CHECKS_PREFIX s then
        if section_glob s = [] then Inl EmptyGlob else Inr check_names
      else case allowed_keys s of None \<Rightarrow> Inl (UnknownSection s) | Some ks \<Rightarrow> Inr ks)"

fun check_sections :: "ini_section list \<Rightarrow> config_error option" where
  "check_sections [] = None"
| "check_sections ((s, os) # ss) =
     (case section_keys s of
        Inl e \<Rightarrow> Some e
      | Inr ks \<Rightarrow>
          (case filter (\<lambda>k. k \<notin> set ks) (map fst os) of
             k # _ \<Rightarrow> Some (UnknownOption s k)
           | [] \<Rightarrow> check_sections ss))"

text \<open>\<open>config.get(section, key, fallback=...)\<close>\<close>

definition ini_get :: "ini_section list \<Rightarrow> string \<Rightarrow> string \<Rightarrow> pystr \<Rightarrow> pystr" where
  "ini_get ss s k fallback =
     (case map_of ss (text_of s) of
        None \<Rightarrow> fallback
      | Some os \<Rightarrow> (case map_of os (text_of k) of None \<Rightarrow> fallback | Some v \<Rightarrow> v))"

type_synonym modes = "pystr \<rightharpoonup> check_mode"

text \<open>The modes of a section: \<open>ignore\<close> is kept only in an override.\<close>

fun section_modes :: "bool \<Rightarrow> (pystr \<times> pystr) list \<Rightarrow> modes \<Rightarrow> config_error + modes" where
  "section_modes base [] m = Inr m"
| "section_modes base ((check, value) # os) m =
     (case parse_mode value of
        None \<Rightarrow> Inl (InvalidMode check value)
      | Some mode \<Rightarrow>
          section_modes base os (if mode \<noteq> Ignore \<or> \<not> base then m(check \<mapsto> mode) else m))"

fun all_modes :: "ini_section list \<Rightarrow> modes \<Rightarrow> (pystr \<times> modes) list
    \<Rightarrow> config_error + modes \<times> (pystr \<times> modes) list" where
  "all_modes [] m ovs = Inr (m, ovs)"
| "all_modes ((s, os) # ss) m ovs =
     (if s \<noteq> text_of ''checks'' \<and> \<not> starts_with CHECKS_PREFIX s then all_modes ss m ovs
      else case section_modes (s = text_of ''checks'') os Map.empty of
             Inl e \<Rightarrow> Inl e
           | Inr sm \<Rightarrow>
               if s = text_of ''checks'' then all_modes ss sm ovs
               else all_modes ss m (ovs @ [(section_glob s, sm)]))"

record config =
  cfg_objects :: "path list"
  cfg_binaries :: "path list"
  cfg_excludes :: "pystr list"
  cfg_modes :: modes
  cfg_overrides :: "(pystr \<times> modes) list"
  cfg_report :: path

definition load_config :: "unicode \<Rightarrow> path \<Rightarrow> pystr \<Rightarrow> config_error + config" where
  "load_config u config_path contents =
     (case read_ini u contents of
        Inl e \<Rightarrow> Inl (IniError e)
      | Inr (defaults, ss) \<Rightarrow>
        if defaults \<noteq> [] then Inl DefaultSection
        else case check_sections ss of Some e \<Rightarrow> Inl e | None \<Rightarrow>
        let objects = stripped_lines (ini_get ss ''scan'' ''object_dirs'' []);
            binaries = stripped_lines (ini_get ss ''scan'' ''binary_paths'' []) in
        if objects = [] \<and> binaries = [] then Inl NothingConfigured
        else case all_modes ss Map.empty [] of Inl e \<Rightarrow> Inl e | Inr (modes, overrides) \<Rightarrow>
        let report = str_strip (ini_get ss ''output'' ''report'' (text_of ''build-report.md''));
            base = path_parent config_path in
        if report = [] then Inl EmptyReport
        else Inr \<lparr>cfg_objects = map (path_join base) objects,
                  cfg_binaries = map (path_join base) binaries,
                  cfg_excludes = stripped_lines (ini_get ss ''scan'' ''exclude'' []),
                  cfg_modes = modes, cfg_overrides = overrides, cfg_report = path_join base report\<rparr>)"

section \<open>The expectations of an item\<close>

definition member_name :: "pystr \<Rightarrow> pystr \<Rightarrow> pystr" where
  "member_name name member = name @ [40] @ member @ [41]"

definition override_applies :: "pystr \<Rightarrow> pystr \<Rightarrow> pystr \<Rightarrow> bool" where
  "override_applies name member pattern \<longleftrightarrow>
     fnmatchcase name pattern \<or> member \<noteq> [] \<and> fnmatchcase (member_name name member) pattern"

definition effective_modes :: "pystr \<Rightarrow> pystr \<Rightarrow> modes \<Rightarrow> (pystr \<times> modes) list \<Rightarrow> modes" where
  "effective_modes name member modes overrides =
     fold (\<lambda>(pattern, changes) effective.
             if override_applies name member pattern then effective ++ changes else effective)
       overrides modes"

definition mode_of :: "modes \<Rightarrow> pystr \<Rightarrow> check_mode" where
  "mode_of m check = (case m check of None \<Rightarrow> Ignore | Some mode \<Rightarrow> mode)"

section \<open>Properties\<close>

lemma effective_last:
  "effective_modes name member modes overrides check =
     (case filter (\<lambda>(pattern, changes). override_applies name member pattern \<and> check \<in> dom changes)
             (rev overrides) of
        [] \<Rightarrow> modes check
      | (pattern, changes) # _ \<Rightarrow> changes check)"
proof (induction overrides rule: rev_induct)
  case (snoc ov overrides)
  obtain p ch where ov: "ov = (p, ch)" by (cases ov)
  have "effective_modes name member modes (overrides @ [ov]) =
      (if override_applies name member p then effective_modes name member modes overrides ++ ch
       else effective_modes name member modes overrides)"
    by (simp add: effective_modes_def ov)
  then show ?case
    using snoc by (auto simp: ov map_add_def split: option.splits)
qed (simp add: effective_modes_def)

text \<open>
  C36. The expectation of a check for an item is that of the last override whose pattern
  matches the file, or the file with its member, and which names the check; when there is
  none it is that of the base section. An override leaves every check it does not name alone.
\<close>

theorem last_override_decides:
  "effective_modes name member modes overrides check =
     (case filter (\<lambda>(pattern, changes). override_applies name member pattern \<and> check \<in> dom changes)
             (rev overrides) of
        [] \<Rightarrow> modes check
      | (pattern, changes) # _ \<Rightarrow> changes check)"
  by (rule effective_last)

lemma section_modes_valid:
  assumes "section_modes base os m = Inr m'" "fst ` set os \<subseteq> K" "dom m \<subseteq> K" "base \<longrightarrow> Ignore \<notin> ran m"
  shows "dom m' \<subseteq> K \<and> (base \<longrightarrow> Ignore \<notin> ran m')"
  using assms
proof (induction base os m rule: section_modes.induct)
  case (2 base check val os m)
  then obtain mode where mode: "parse_mode val = Some mode" by (auto split: option.splits)
  let ?m = "if mode \<noteq> Ignore \<or> \<not> base then m(check \<mapsto> mode) else m"
  have "Ignore \<notin> ran ?m" if base
    using 2(5) that by (auto simp: ran_def)
  moreover have "dom ?m \<subseteq> K" using 2(3,4) by auto
  ultimately show ?case using 2(1) [OF mode] 2(2,3) mode by auto
qed auto

definition modes_valid :: "modes \<times> (pystr \<times> modes) list \<Rightarrow> bool" where
  "modes_valid r \<longleftrightarrow> dom (fst r) \<subseteq> set check_names \<and> Ignore \<notin> ran (fst r)
     \<and> (\<forall>(g, m) \<in> set (snd r). g \<noteq> [] \<and> dom m \<subseteq> set check_names)"

lemma checks_keys: "section_keys (text_of ''checks'') = Inr check_names"
  by (simp add: section_keys_def CHECKS_PREFIX_def allowed_keys_def latin1_def)

lemma all_modes_valid:
  assumes "all_modes ss m ovs = Inr r" "check_sections ss = None" "modes_valid (m, ovs)"
  shows "modes_valid r"
  using assms
proof (induction ss m ovs rule: all_modes.induct)
  case (2 s os ss m ovs)
  obtain ks where ks: "section_keys s = Inr ks" "\<forall>k \<in> fst ` set os. k \<in> set ks" "check_sections ss = None"
    using 2(5) by (auto simp: filter_empty_conv split: sum.splits list.splits)
  show ?case
  proof (cases "s \<noteq> text_of ''checks'' \<and> \<not> starts_with CHECKS_PREFIX s")
    case True
    with 2 ks show ?thesis by simp
  next
    case False
    then obtain sm where sm: "section_modes (s = text_of ''checks'') os Map.empty = Inr sm"
      using 2(4) by (auto split: sum.splits)
    show ?thesis
    proof (cases "s = text_of ''checks''")
      case True
      with ks checks_keys have "fst ` set os \<subseteq> set check_names" by auto
      from section_modes_valid [OF sm this] have "modes_valid (sm, ovs)"
        using True 2(6) by (simp add: modes_valid_def)
      with 2(2) [OF False sm True] 2(4) ks(3) sm True show ?thesis by simp
    next
      case False
      then have p: "starts_with CHECKS_PREFIX s" using \<open>\<not> (s \<noteq> _ \<and> _)\<close> by simp
      with ks have "section_glob s \<noteq> []" "ks = check_names"
        by (auto simp: section_keys_def split: if_splits)
      with ks have "fst ` set os \<subseteq> set check_names" by auto
      from section_modes_valid [OF sm this] have "modes_valid (m, ovs @ [(section_glob s, sm)])"
        using 2(6) \<open>section_glob s \<noteq> []\<close> by (auto simp: modes_valid_def)
      with 2(3) [OF _ sm False] 2(4) ks(3) sm False p show ?thesis by simp
    qed
  qed
qed auto

text \<open>
  C37. A configuration that loads is well formed: it has something to scan, it sets no
  option outside the known sections, its base expectations are \<open>present\<close> or \<open>absent\<close> for known
  checks, and every override has a pattern and names known checks only.
\<close>

theorem load_config_valid:
  assumes "load_config u p contents = Inr c"
  shows "(cfg_objects c \<noteq> [] \<or> cfg_binaries c \<noteq> [])
    \<and> modes_valid (cfg_modes c, cfg_overrides c)
    \<and> (\<exists>ss. read_ini u contents = Inr ([], ss) \<and> check_sections ss = None)"
proof -
  obtain ss where ini: "read_ini u contents = Inr ([], ss)" and cs: "check_sections ss = None"
    using assms by (auto simp: load_config_def Let_def split: sum.splits if_splits option.splits)
  have r: "all_modes ss Map.empty [] = Inr (cfg_modes c, cfg_overrides c)"
    and n: "cfg_objects c \<noteq> [] \<or> cfg_binaries c \<noteq> []"
    using assms ini cs
    by (auto simp: load_config_def Let_def split: sum.splits if_splits option.splits)
  have "modes_valid (Map.empty, [])" by (simp add: modes_valid_def)
  from all_modes_valid [OF r cs this] n ini cs show ?thesis by blast
qed

text \<open>A scan of one directory with one expectation.\<close>

definition sample_ini :: pystr where
  "sample_ini = join_with [10] (map latin1 [''[scan]'', ''object_dirs='', '' o'', ''[checks]'', ''asan: present''])"

lemma sample_read:
  "read_ini plain_unicode sample_ini =
     Inr ([], [(text_of ''scan'', [(text_of ''object_dirs'', 10 # text_of ''o'')]),
               (text_of ''checks'', [(text_of ''asan'', text_of ''present'')])])"
proof -
  have f: "file_lines sample_ini =
      map latin1 [''[scan]'', ''object_dirs='', '' o'', ''[checks]'', ''asan: present'']"
    by (simp add: sample_ini_def file_lines_def latin1_def)
  show ?thesis
    unfolding read_ini_def f
    by (simp add: latin1_def ini_line_def ini_start_def Let_def str_strip_def strip_by_def
        rstrip_by_def str_space_def section_header_def option_line_def str_lower_def lower_char_def
        plain_unicode_def DEFAULT_SECTION_def put_options_def section_options_def
        append_value_def joined_def)
qed

definition sample_config :: config where
  "sample_config = \<lparr>cfg_objects = [Path [47] [text_of ''o'']], cfg_binaries = [], cfg_excludes = [],
     cfg_modes = [text_of ''asan'' \<mapsto> Present], cfg_overrides = [],
     cfg_report = Path [47] [text_of ''build-report.md'']\<rparr>"

lemma sample_load:
  "load_config plain_unicode (Path [47] [text_of ''x.ini'']) sample_ini = Inr sample_config"
proof -
  let ?ss = "[(text_of ''scan'', [(text_of ''object_dirs'', 10 # text_of ''o'')]),
      (text_of ''checks'', [(text_of ''asan'', text_of ''present'')])]"
  have names: "text_of ''scan'' \<noteq> text_of ''checks''" "text_of ''checks'' \<noteq> text_of ''scan''"
    "\<not> starts_with CHECKS_PREFIX (text_of ''scan'')" "\<not> starts_with CHECKS_PREFIX (text_of ''checks'')"
    by (simp_all add: CHECKS_PREFIX_def latin1_def)
  have cs: "check_sections ?ss = None"
    by (simp add: section_keys_def allowed_keys_def CHECKS_PREFIX_def check_names_def CHECKS_def latin1_def)
  have "parse_mode (text_of ''present'') = Some Present"
    by (simp add: parse_mode_def latin1_def str_strip_def strip_by_def rstrip_by_def str_space_def
        LEGACY_MODES_def MODES_def)
  then have am: "all_modes ?ss Map.empty [] = Inr ([text_of ''asan'' \<mapsto> Present], [])"
    by (simp add: names)
  have gets: "ini_get ?ss ''scan'' ''object_dirs'' [] = 10 # text_of ''o''"
    "ini_get ?ss ''scan'' ''binary_paths'' [] = []" "ini_get ?ss ''scan'' ''exclude'' [] = []"
    "ini_get ?ss ''output'' ''report'' (text_of ''build-report.md'') = text_of ''build-report.md''"
    by (simp_all add: ini_get_def latin1_def)
  have strips: "stripped_lines (10 # text_of ''o'') = [text_of ''o'']" "stripped_lines [] = []"
    "str_strip (text_of ''build-report.md'') = text_of ''build-report.md''" "text_of ''build-report.md'' \<noteq> []"
    by (simp_all add: stripped_lines_def latin1_def line_break_def str_strip_def strip_by_def
        rstrip_by_def str_space_def)
  have paths: "path_parent (Path [47] [text_of ''x.ini'']) = Path [47] []"
    "path_join (Path [47] []) (text_of ''o'') = Path [47] [text_of ''o'']"
    "path_join (Path [47] []) (text_of ''build-report.md'') = Path [47] [text_of ''build-report.md'']"
    by (simp_all add: path_parent_def path_join_def name_parts_def latin1_def)
  show ?thesis
    unfolding load_config_def sample_read sum.case prod.case Let_def cs option.case am gets strips paths
      sample_config_def
    by (simp add: strips paths)
qed

lemma load_config_valid_witness:
  "modes_valid (cfg_modes sample_config, cfg_overrides sample_config)"
  using load_config_valid [OF sample_load] by blast

end
