(* ===== verification/Discover.thy ===== *)
theory Discover
  imports Config
begin

text \<open>
  Finding the artifacts to check (\<open>discover\<close> of check_build.py). The file system is a record
  of what the code asks it: the outcome of \<open>stat\<close>, the bytes of a file, \<open>resolve\<close>, strict and not, the two
  tests of a root, and the directories and files that walking a root finds, with the errors of
  listing. An \<open>OSError\<close> is its text.
\<close>

section \<open>The file system as the code sees it\<close>

text \<open>A directory that can be listed has subdirectories that are no links, and other entries.\<close>

datatype dir_tree = Unlisted pystr | Listed "(pystr \<times> dir_tree) list" "pystr list"

record file_system =
  fs_regular :: "path \<Rightarrow> pystr + bool"
  fs_bytes :: "path \<Rightarrow> pystr + bytes"
  fs_resolve :: "path \<Rightarrow> pystr + path"
  fs_realpath :: "path \<Rightarrow> path"
  fs_is_file :: "path \<Rightarrow> bool"
  fs_is_dir :: "path \<Rightarrow> bool"
  fs_tree :: "path \<Rightarrow> dir_tree"

definition path_child :: "path \<Rightarrow> pystr \<Rightarrow> path" where
  "path_child d name = Path (path_root d) (path_parts d @ [name])"

definition excluded :: "path \<Rightarrow> pystr list \<Rightarrow> path \<Rightarrow> bool" where
  "excluded base excludes p =
     list_ex (\<lambda>pattern. fnmatchcase (rel_path p base) pattern \<or> fnmatchcase (path_name p) pattern)
       excludes"

section \<open>Classifying a file\<close>

definition ELF_MAGIC :: bytes where "ELF_MAGIC = CHR 0x7F # ''ELF''"

definition le_bytes :: "bytes \<Rightarrow> nat" where "le_bytes d = from_bytes (rev d)"

text \<open>The ELF type in the first eighteen bytes of a file.\<close>

definition elf_type :: "bytes \<Rightarrow> nat option" where
  "elf_type header =
     (if take 4 header = ELF_MAGIC \<and> length header = 18 \<and> byte_val (header ! 5) \<in> {1, 2} then
        Some ((if byte_val (header ! 5) = 1 then le_bytes else from_bytes) (slice header 16 18))
      else None)"

definition ARCHIVE_MAGICS :: "bytes list" where
  "ARCHIVE_MAGICS = [''!<arch>'' @ [CHR 0x0A], ''!<thin>'' @ [CHR 0x0A]]"

definition BITCODE_MAGICS :: "bytes list" where
  "BITCODE_MAGICS = [[CHR 0x42, CHR 0x43, CHR 0xC0, CHR 0xDE], [CHR 0xDE, CHR 0xC0, CHR 0x17, CHR 0x0B]]"

definition starts_with_any :: "bytes list \<Rightarrow> bytes \<Rightarrow> bool" where
  "starts_with_any ms d = list_ex (\<lambda>m. starts_with m d) ms"

definition classify_object :: "pystr \<Rightarrow> bytes \<Rightarrow> artifact_kind option" where
  "classify_object suffix header =
     (if starts_with_any ARCHIVE_MAGICS header then Some ArchiveFile
      else if elf_type header = Some 1 \<or> starts_with_any BITCODE_MAGICS header then Some ObjectFile
      else if suffix \<in> set (map latin1 [''.o'', ''.obj'', ''.a'', ''.rlib'', ''.bc'']) then
        Some (if suffix \<in> set (map latin1 [''.a'', ''.rlib'']) then ArchiveFile else ObjectFile)
      else None)"

definition classify_binary :: "bytes \<Rightarrow> artifact_kind option" where
  "classify_binary header =
     (if elf_type header \<in> {Some 2, Some 3} then Some BinaryFile else None)"

definition classify :: "bool \<Rightarrow> path \<Rightarrow> bytes \<Rightarrow> artifact_kind option" where
  "classify binary p header =
     (if binary then classify_binary header else classify_object (path_suffix p) header)"

section \<open>Adding a candidate\<close>

text \<open>What has been found so far: the artifacts by resolved path, and the errors.\<close>

record found =
  artifacts :: "(path \<times> artifact_kind) list"
  errors :: "pystr list"

definition add_error :: "pystr \<Rightarrow> found \<Rightarrow> found" where
  "add_error e st = st\<lparr>errors := errors st @ [e]\<rparr>"

definition path_error :: "path \<Rightarrow> pystr \<Rightarrow> pystr" where
  "path_error p e = path_str p @ text_of '': '' @ e"

definition add :: "file_system \<Rightarrow> (path \<Rightarrow> bool) \<Rightarrow> path \<Rightarrow> bool \<Rightarrow> bool \<Rightarrow> found \<Rightarrow> bool \<times> found" where
  "add fs ex p binary explicit st =
     (if ex p then (False, st)
      else case fs_regular fs p of
        Inl e \<Rightarrow> (False, add_error (path_error p e) st)
      | Inr False \<Rightarrow>
          (False, if explicit then add_error (path_error p (text_of ''expected a regular file'')) st else st)
      | Inr True \<Rightarrow>
        (case fs_bytes fs p of
          Inl e \<Rightarrow> (False, add_error (path_error p e) st)
        | Inr contents \<Rightarrow>
          (case classify binary p (take 18 contents) of
            None \<Rightarrow>
              (False,
               if binary \<and> explicit
               then add_error (path_error p (text_of ''expected an ELF executable or shared library'')) st
               else st)
          | Some kind \<Rightarrow>
            (case fs_resolve fs p of
              Inl e \<Rightarrow> (False, add_error (path_error p e) st)
            | Inr r \<Rightarrow> (True, st\<lparr>artifacts := dict_set r kind (artifacts st)\<rparr>)))))"

section \<open>Walking a root\<close>

text \<open>
  What \<open>os.walk\<close> meets, in order: the files of a directory by name, then its
  subdirectories by name without the excluded ones; a directory that cannot be listed is an
  error.
\<close>

datatype walk_event = FileAt path | ListError pystr

lemma subtree_size:
  "(name, sub) \<in> set dirs \<Longrightarrow> size sub \<le> size_list (size_prod (\<lambda>x. 0) size) dirs"
  by (induction dirs) auto

function walk :: "(path \<Rightarrow> bool) \<Rightarrow> path \<Rightarrow> dir_tree \<Rightarrow> walk_event list" where
  "walk ex d (Unlisted e) = [ListError e]"
| "walk ex d (Listed dirs files) =
     map (\<lambda>f. FileAt (path_child d f)) (sort files) @
     concat (map (\<lambda>(name, sub). walk ex (path_child d name) sub)
       (filter (\<lambda>(name, sub). \<not> ex (path_child d name)) (sort_key fst dirs)))"
  by pat_completeness auto
termination
  by (relation "measure (\<lambda>(ex, d, tr). size tr)") (auto simp: less_Suc_eq_le dest: subtree_size)

fun scan_events :: "file_system \<Rightarrow> (path \<Rightarrow> bool) \<Rightarrow> bool \<Rightarrow> walk_event list \<Rightarrow> nat \<Rightarrow> found \<Rightarrow> nat \<times> found" where
  "scan_events fs ex binary [] matched st = (matched, st)"
| "scan_events fs ex binary (ListError e # evs) matched st =
     scan_events fs ex binary evs matched (add_error e st)"
| "scan_events fs ex binary (FileAt p # evs) matched st =
     (case add fs ex p binary False st of
        (ok, st) \<Rightarrow> scan_events fs ex binary evs (if ok then matched + 1 else matched) st)"

definition scan_root :: "file_system \<Rightarrow> (path \<Rightarrow> bool) \<Rightarrow> bool \<Rightarrow> path \<Rightarrow> found \<Rightarrow> found" where
  "scan_root fs ex binary root st =
     (if ex root then st
      else
        let previous_errors = length (errors st);
            (matched, st) =
              (if fs_is_file fs root \<and> binary then
                 (case add fs ex root binary True st of (ok, st) \<Rightarrow> (if ok then 1 else 0, st))
               else if fs_is_dir fs root then
                 scan_events fs ex binary (walk ex root (fs_tree fs root)) 0 st
               else
                 (0, add_error (path_error root (text_of ''missing or not a '' @
                        (if binary then text_of ''file/directory'' else text_of ''directory''))) st))
        in if matched = 0 \<and> length (errors st) = previous_errors then
             add_error (path_error root (text_of ''no matching artifacts found'')) st
           else st)"

definition path_key :: "path \<times> artifact_kind \<Rightarrow> pystr list" where
  "path_key a = path_root (fst a) # path_parts (fst a)"

definition discover :: "file_system \<Rightarrow> path list \<Rightarrow> path list \<Rightarrow> pystr list \<Rightarrow> path
    \<Rightarrow> (path \<times> artifact_kind) list \<times> pystr list" where
  "discover fs objects binaries excludes base =
     (let ex = excluded base excludes;
          st = fold (scan_root fs ex False) objects \<lparr>artifacts = [], errors = []\<rparr>;
          st = fold (scan_root fs ex True) binaries st;
          st = (if artifacts st = [] then add_error (text_of ''no matching artifacts found'') st else st)
      in (sort_key path_key (artifacts st), errors st))"

section \<open>What is found\<close>

lemma dict_set_keys: "fst ` set (dict_set k v d) = insert k (fst ` set d)"
proof (induction d)
  case (Cons x d)
  then show ?case by (cases x) (auto simp: insert_commute)
qed simp

lemma dict_set_distinct: "distinct (map fst d) \<Longrightarrow> distinct (map fst (dict_set k v d))"
proof (induction d)
  case (Cons x d)
  then have "fst x \<noteq> k \<Longrightarrow> fst x \<notin> fst ` set (dict_set k v d)" by (simp add: dict_set_keys)
  with Cons show ?case by (cases x) auto
qed simp

lemma dict_set_member: "x \<in> set (dict_set k v d) \<Longrightarrow> x = (k, v) \<or> x \<in> set d"
  by (induction d) (auto split: if_splits)

text \<open>An artifact is the resolved path of a candidate that passed every test.\<close>

definition accepted :: "file_system \<Rightarrow> (path \<Rightarrow> bool) \<Rightarrow> path \<Rightarrow> artifact_kind \<Rightarrow> path \<Rightarrow> bool" where
  "accepted fs ex r kind p \<longleftrightarrow>
     \<not> ex p \<and> fs_regular fs p = Inr True \<and> fs_resolve fs p = Inr r
     \<and> (\<exists>binary contents. fs_bytes fs p = Inr contents \<and> classify binary p (take 18 contents) = Some kind)"

definition found_ok :: "file_system \<Rightarrow> (path \<Rightarrow> bool) \<Rightarrow> found \<Rightarrow> bool" where
  "found_ok fs ex st \<longleftrightarrow> distinct (map fst (artifacts st))
     \<and> (\<forall>(r, kind) \<in> set (artifacts st). \<exists>p. accepted fs ex r kind p)"

text \<open>Nothing found and no error is ever taken back.\<close>

definition grows :: "found \<Rightarrow> found \<Rightarrow> bool" where
  "grows st st' \<longleftrightarrow> length (errors st) \<le> length (errors st')
     \<and> fst ` set (artifacts st) \<subseteq> fst ` set (artifacts st')"

definition resolved_in :: "file_system \<Rightarrow> path \<Rightarrow> found \<Rightarrow> bool" where
  "resolved_in fs p st \<longleftrightarrow> (\<exists>r. fs_resolve fs p = Inr r \<and> r \<in> fst ` set (artifacts st))"

lemma grows_refl [simp]: "grows st st"
  by (simp add: grows_def)

lemma grows_trans: "grows a b \<Longrightarrow> grows b c \<Longrightarrow> grows a c"
  by (auto simp: grows_def)

lemma grows_add_error [simp]: "grows st (add_error e st)"
  by (simp add: grows_def add_error_def)

lemma errors_add_error [simp]: "length (errors (add_error e st)) = Suc (length (errors st))"
  by (simp add: add_error_def)

lemma resolved_grows: "resolved_in fs p st \<Longrightarrow> grows st st' \<Longrightarrow> resolved_in fs p st'"
  unfolding resolved_in_def grows_def by blast

lemma found_ok_add_error [simp]: "found_ok fs ex (add_error e st) = found_ok fs ex st"
  by (simp add: found_ok_def add_error_def)

lemma add_found:
  assumes "add fs ex p binary explicit st = (b, st')"
  shows "grows st st'" "found_ok fs ex st \<Longrightarrow> found_ok fs ex st'"
    "b \<Longrightarrow> resolved_in fs p st' \<and> \<not> ex p"
proof -
  consider (unchanged) "\<not> b" "st' = st" | (error) e where "\<not> b" "st' = add_error e st"
    | (added) r kind where "b" "accepted fs ex r kind p" "st' = st\<lparr>artifacts := dict_set r kind (artifacts st)\<rparr>"
    using assms unfolding add_def accepted_def
    by (auto split: if_splits sum.splits bool.splits option.splits)
  note cs = this
  show "grows st st'"
    using cs by cases (auto simp: grows_def dict_set_keys add_error_def)
  show "b \<Longrightarrow> resolved_in fs p st' \<and> \<not> ex p"
    using cs by cases (auto simp: resolved_in_def accepted_def dict_set_keys)
  assume ok: "found_ok fs ex st"
  show "found_ok fs ex st'"
    using cs
  proof cases
    case (added r kind)
    with ok show ?thesis
      by (fastforce simp: found_ok_def dict_set_distinct dest: dict_set_member)
  qed (use ok in simp_all)
qed

lemma scan_events_found:
  assumes "scan_events fs ex binary evs n st = (n', st')"
  shows "grows st st' \<and> (found_ok fs ex st \<longrightarrow> found_ok fs ex st')
    \<and> (n < n' \<longrightarrow> (\<exists>p. FileAt p \<in> set evs \<and> \<not> ex p \<and> resolved_in fs p st'))"
  using assms
proof (induction fs ex binary evs n st rule: scan_events.induct)
  case (2 fs ex binary e evs matched st)
  then have "grows (add_error e st) st'" by simp
  with 2 grows_trans [OF grows_add_error this] show ?case by auto
next
  case (3 fs ex binary p evs matched st)
  obtain ok st1 where a: "add fs ex p binary False st = (ok, st1)"
    by (cases "add fs ex p binary False st")
  let ?n = "if ok then matched + 1 else matched"
  have IH: "grows st1 st' \<and> (found_ok fs ex st1 \<longrightarrow> found_ok fs ex st')
      \<and> (?n < n' \<longrightarrow> (\<exists>p. FileAt p \<in> set evs \<and> \<not> ex p \<and> resolved_in fs p st'))"
    using 3 a by simp
  note f = add_found [OF a]
  have "\<exists>q. FileAt q \<in> set (FileAt p # evs) \<and> \<not> ex q \<and> resolved_in fs q st'" if "matched < n'"
  proof (cases ok)
    case True
    with f(3) IH resolved_grows show ?thesis by fastforce
  next
    case False
    with that IH show ?thesis by auto
  qed
  with IH f grows_trans show ?case by blast
qed auto

definition under :: "path \<Rightarrow> path \<Rightarrow> bool" where
  "under root p \<longleftrightarrow> path_root p = path_root root \<and> (\<exists>s. path_parts p = path_parts root @ s)"

lemma walk_under: "FileAt p \<in> set (walk ex d tr) \<Longrightarrow> under d p"
proof (induction ex d tr rule: walk.induct)
  case (2 ex d dirs files)
  consider f where "p = path_child d f"
    | name sub where "(name, sub) \<in> set (filter (\<lambda>(name, sub). \<not> ex (path_child d name)) (sort_key fst dirs))"
        "FileAt p \<in> set (walk ex (path_child d name) sub)"
    using 2(2) by auto
  then show ?case
  proof cases
    case 1
    then show ?thesis by (auto simp: under_def path_child_def)
  next
    case (2 name sub)
    with "2.IH" [OF 2(1) refl] show ?thesis by (auto simp: under_def path_child_def)
  qed
qed simp

text \<open>A root that is not excluded leaves an artifact below it or an error.\<close>

definition covered :: "file_system \<Rightarrow> (path \<Rightarrow> bool) \<Rightarrow> path \<Rightarrow> found \<Rightarrow> bool" where
  "covered fs ex root st \<longleftrightarrow> (\<exists>p. under root p \<and> \<not> ex p \<and> resolved_in fs p st)"

lemma covered_grows: "covered fs ex root st \<Longrightarrow> grows st st' \<Longrightarrow> covered fs ex root st'"
  using resolved_grows by (fastforce simp: covered_def)

lemma scan_root_found:
  "grows st (scan_root fs ex binary root st)
   \<and> (found_ok fs ex st \<longrightarrow> found_ok fs ex (scan_root fs ex binary root st))
   \<and> (ex root \<or> length (errors st) < length (errors (scan_root fs ex binary root st))
      \<or> covered fs ex root (scan_root fs ex binary root st))"
proof (cases "ex root")
  case False
  have step: "\<exists>n st1. grows st st1 \<and> (found_ok fs ex st \<longrightarrow> found_ok fs ex st1)
      \<and> (n \<noteq> (0::nat) \<longrightarrow> covered fs ex root st1)
      \<and> scan_root fs ex binary root st =
          (if n = 0 \<and> length (errors st1) = length (errors st)
           then add_error (path_error root (text_of ''no matching artifacts found'')) st1 else st1)"
  proof (cases "fs_is_file fs root \<and> binary")
    case True
    obtain ok st1 where a: "add fs ex root binary True st = (ok, st1)"
      by (cases "add fs ex root binary True st")
    have "ok \<Longrightarrow> covered fs ex root st1"
      using add_found(3) [OF a] by (auto simp: covered_def under_def)
    with True False a add_found(1,2) [OF a] show ?thesis
      by (intro exI [of _ "if ok then 1 else 0"] exI [of _ st1]) (auto simp: scan_root_def Let_def)
  next
    case nofile: False
    show ?thesis
    proof (cases "fs_is_dir fs root")
      case True
      obtain n st1 where s: "scan_events fs ex binary (walk ex root (fs_tree fs root)) 0 st = (n, st1)"
        by (cases "scan_events fs ex binary (walk ex root (fs_tree fs root)) 0 st")
      have "n \<noteq> 0 \<Longrightarrow> covered fs ex root st1"
        using scan_events_found [OF s] walk_under by (fastforce simp: covered_def)
      with True False nofile s scan_events_found [OF s] show ?thesis
        by (intro exI [of _ n] exI [of _ st1]) (auto simp: scan_root_def Let_def)
    next
      case nodir: False
      let ?st1 = "add_error (path_error root (text_of ''missing or not a '' @
          (if binary then text_of ''file/directory'' else text_of ''directory''))) st"
      from nodir False nofile show ?thesis
        by (intro exI [of _ 0] exI [of _ ?st1]) (auto simp: scan_root_def)
    qed
  qed
  then obtain n st1 where n: "grows st st1" "found_ok fs ex st \<longrightarrow> found_ok fs ex st1"
    "n \<noteq> (0::nat) \<longrightarrow> covered fs ex root st1"
    "scan_root fs ex binary root st =
      (if n = 0 \<and> length (errors st1) = length (errors st)
       then add_error (path_error root (text_of ''no matching artifacts found'')) st1 else st1)"
    by blast
  then have "grows st (scan_root fs ex binary root st)"
    using grows_trans [OF n(1) grows_add_error] by simp
  moreover have "length (errors st) \<le> length (errors st1)" using n(1) by (simp add: grows_def)
  ultimately show ?thesis using n(2,3) unfolding n(4) by auto
qed (simp add: scan_root_def)

lemma scan_roots_found:
  "grows st (fold (scan_root fs ex binary) roots st)
   \<and> (found_ok fs ex st \<longrightarrow> found_ok fs ex (fold (scan_root fs ex binary) roots st))
   \<and> (\<forall>root \<in> set roots. ex root \<or> length (errors st) < length (errors (fold (scan_root fs ex binary) roots st))
        \<or> covered fs ex root (fold (scan_root fs ex binary) roots st))"
proof (induction roots arbitrary: st)
  case (Cons r roots)
  let ?s1 = "scan_root fs ex binary r st"
  let ?s2 = "fold (scan_root fs ex binary) roots ?s1"
  note one = scan_root_found [of st fs ex binary r]
  note rest = Cons.IH [of ?s1]
  have g: "grows st ?s2" using one rest grows_trans by blast
  have len: "length (errors st) \<le> length (errors ?s1)" "length (errors ?s1) \<le> length (errors ?s2)"
    using one rest by (auto simp: grows_def)
  have "ex r \<or> length (errors st) < length (errors ?s2) \<or> covered fs ex r ?s2"
    using one rest len covered_grows by fastforce
  with g one rest len show ?case by fastforce
qed simp

lemma sort_key_distinct: "distinct (map fst xs) \<Longrightarrow> distinct (map fst (sort_key f xs))"
  by (metis distinct_map distinct_sort set_sort)

text \<open>
  C38. The artifacts are in order and without repetition; each is the resolved path of a
  candidate that no pattern excludes, that is a regular file and whose kind its contents or
  its name give. No root is passed over in silence: without an error there is an artifact,
  and below every root that is not excluded a candidate that resolved to one.
\<close>

theorem discover_finds:
  assumes "discover fs objects binaries excludes base = (arts, errs)"
  shows "sorted (map path_key arts) \<and> distinct (map fst arts)
    \<and> (\<forall>(r, kind) \<in> set arts. \<exists>p. accepted fs (excluded base excludes) r kind p)
    \<and> (errs = [] \<longrightarrow> arts \<noteq> []
        \<and> (\<forall>root \<in> set (objects @ binaries). excluded base excludes root
             \<or> (\<exists>p r. under root p \<and> \<not> excluded base excludes p \<and> fs_resolve fs p = Inr r
                  \<and> r \<in> fst ` set arts)))"
proof -
  let ?ex = "excluded base excludes"
  let ?s0 = "\<lparr>artifacts = [], errors = []\<rparr>"
  let ?s1 = "fold (scan_root fs ?ex False) objects ?s0"
  let ?s2 = "fold (scan_root fs ?ex True) binaries ?s1"
  have arts: "arts = sort_key path_key (artifacts ?s2)"
    and errs: "errs = [] \<longleftrightarrow> artifacts ?s2 \<noteq> [] \<and> errors ?s2 = []"
    using assms by (auto simp: discover_def Let_def add_error_def split: if_splits)
  note one = scan_roots_found [of ?s0 fs ?ex False objects]
  note two = scan_roots_found [of ?s1 fs ?ex True binaries]
  have "found_ok fs ?ex ?s0" by (simp add: found_ok_def)
  then have ok: "found_ok fs ?ex ?s2" using one two by blast
  have "covered fs ?ex root ?s2" if "errors ?s2 = []" "root \<in> set (objects @ binaries)" "\<not> ?ex root" for root
  proof -
    have "errors ?s1 = []" using that(1) two by (simp add: grows_def)
    then show ?thesis
      using that one two covered_grows by fastforce
  qed
  then have cov: "\<exists>p r. under root p \<and> \<not> ?ex p \<and> fs_resolve fs p = Inr r \<and> r \<in> fst ` set arts"
    if "errors ?s2 = []" "root \<in> set (objects @ binaries)" "\<not> ?ex root" for root
    using that unfolding covered_def resolved_in_def arts set_sort by blast
  have "artifacts ?s2 \<noteq> [] \<longleftrightarrow> arts \<noteq> []"
    unfolding arts by (metis set_empty set_sort)
  with ok cov errs show ?thesis
    unfolding found_ok_def arts by (auto simp: sort_key_distinct)
qed

text \<open>A directory with one object file and one text file.\<close>

definition sample_fs :: file_system where
  "sample_fs = \<lparr>fs_regular = (\<lambda>_. Inr True),
     fs_bytes = (\<lambda>p. Inr (if path_suffix p = [46, 111] then ELF_MAGIC else ''text'')),
     fs_resolve = Inr, fs_realpath = (\<lambda>p. p), fs_is_file = (\<lambda>_. False), fs_is_dir = (\<lambda>p. path_parts p = [[111]]),
     fs_tree = (\<lambda>_. Listed [] [[116], [120, 46, 111]])\<rparr>"

lemma sample_discover:
  "discover sample_fs [Path [47] [[111]]] [] [] (Path [47] []) =
     ([(Path [47] [[111], [120, 46, 111]], ObjectFile)], [])"
  by (simp add: discover_def scan_root_def excluded_def sample_fs_def path_child_def Let_def
      add_def classify_def classify_object_def starts_with_any_def ARCHIVE_MAGICS_def
      BITCODE_MAGICS_def ELF_MAGIC_def elf_type_def path_suffix_def path_name_def latin1_def)

lemma discover_finds_witness:
  "accepted sample_fs (excluded (Path [47] []) []) (Path [47] [[111], [120, 46, 111]]) ObjectFile
     (Path [47] [[111], [120, 46, 111]])"
  using discover_finds [OF sample_discover] by (auto simp: accepted_def sample_fs_def)

end
