(* ===== verification/Report.thy ===== *)
theory Report
  imports Discover
begin

text \<open>
  The report of check_build.py: \<open>make_report\<close> inspects each artifact once, judges every check
  of every item, and writes the counts, the failures and the details as Markdown. The outcome
  of running readelf on a path (its exit status, output and diagnostics, or the text of an
  error) is a parameter.
\<close>

section \<open>The running totals\<close>

record totals =
  files :: "artifact_kind \<Rightarrow> pystr list"
  inspected_by_kind :: "artifact_kind \<Rightarrow> nat"
  members_checked :: nat
  members_inspected :: nat
  members_failed :: nat
  details :: "pystr list"
  counts :: "pystr \<Rightarrow> ev_state \<Rightarrow> nat"
  failures_by_check :: "pystr \<Rightarrow> (pystr \<times> nat \<times> pystr) list"
  used_modes :: "pystr \<Rightarrow> check_mode list"
  failures :: nat
  checked :: nat
  code_items :: nat
  failed_items :: nat
  skipped_items :: nat
  report_errors :: "pystr list"

definition totals_start :: "pystr list \<Rightarrow> totals" where
  "totals_start errs = \<lparr>files = (\<lambda>_. []), inspected_by_kind = (\<lambda>_. 0), members_checked = 0,
     members_inspected = 0, members_failed = 0, details = [], counts = (\<lambda>_ _. 0),
     failures_by_check = (\<lambda>_. []), used_modes = (\<lambda>_. []), failures = 0, checked = 0,
     code_items = 0, failed_items = 0, skipped_items = 0, report_errors = errs\<rparr>"

definition log :: "pystr list \<Rightarrow> totals \<Rightarrow> totals" where
  "log ls st = st\<lparr>details := details st @ ls\<rparr>"

definition pad_right :: "nat \<Rightarrow> pystr \<Rightarrow> pystr" where
  "pad_right n s = s @ replicate (n - length s) 32"

definition pad_left :: "nat \<Rightarrow> pystr \<Rightarrow> pystr" where
  "pad_left n s = replicate (n - length s) 32 @ s"

primrec mode_name :: "check_mode \<Rightarrow> pystr" where
  "mode_name Present = text_of ''present''"
| "mode_name Absent = text_of ''absent''"
| "mode_name Ignore = text_of ''ignore''"

section \<open>One item\<close>

text \<open>The first failure of a file under a check is described, later ones are counted.\<close>

definition note_failure :: "pystr \<Rightarrow> pystr \<Rightarrow> (pystr \<times> nat \<times> pystr) list \<Rightarrow> (pystr \<times> nat \<times> pystr) list" where
  "note_failure name description entries =
     (case map_of entries name of
        Some (count, first) \<Rightarrow> dict_set name (count + 1, first) entries
      | None \<Rightarrow> dict_set name (1, description) entries)"

definition failure_detail :: "ev_state \<Rightarrow> pystr \<Rightarrow> pystr" where
  "failure_detail state reason =
     (case state of
        NotSeen \<Rightarrow> text_of ''not seen''
      | Found \<Rightarrow> text_of ''found: '' @ reason
      | _ \<Rightarrow> text_of ''inconclusive: '' @ reason)"

definition check_item :: "re_tables \<Rightarrow> pystr \<Rightarrow> pystr \<Rightarrow> modes \<Rightarrow> evidence \<Rightarrow> pystr
    \<Rightarrow> bool \<times> totals \<Rightarrow> bool \<times> totals" where
  "check_item t name item item_modes ev check acc =
     (case acc of (item_failed, st) \<Rightarrow>
        let mode = mode_of item_modes check;
            (state, reason) = detect t check ev;
            mismatch = policy_failed mode state;
            suffix = (if mismatch then text_of ''; FAIL (expected '' @ mode_name mode @ text_of '')'' else []);
            st = st\<lparr>used_modes := (used_modes st)(check := set_add mode (used_modes st check)),
                    counts := (counts st)(check := (counts st check)(state := counts st check state + 1))\<rparr>;
            st = log [text_of ''  '' @ pad_right 18 check @ text_of '' '' @ pad_right 11 (state_name state) @
                      text_of '' '' @ reason @ suffix] st
        in if \<not> mismatch then (item_failed, st)
           else (True, st\<lparr>failures_by_check := (failures_by_check st)(check :=
                   note_failure name
                     (item @ text_of '': '' @ failure_detail state reason @ text_of ''; expected '' @ mode_name mode)
                     (failures_by_check st check))\<rparr>))"

text \<open>The name of an item, with its occurrence when the archive repeats a member's name.\<close>

definition occurrence_suffix :: "nat \<Rightarrow> pystr" where
  "occurrence_suffix n = (if n > 1 then text_of '' [occurrence '' @ str_nat n @ text_of '']'' else [])"

definition enter_member :: "pystr \<Rightarrow> elf_unit \<Rightarrow> (pystr \<Rightarrow> nat) \<times> totals \<Rightarrow> pystr \<times> (pystr \<Rightarrow> nat) \<times> totals" where
  "enter_member name unit acc =
     (case acc of (occurrences, st) \<Rightarrow>
        if unit_member unit = [] then (name, occurrences, st)
        else
          let st = st\<lparr>members_checked := members_checked st + 1\<rparr>;
              st = (if unit_error unit \<noteq> [] then st\<lparr>members_failed := members_failed st + 1\<rparr>
                    else st\<lparr>members_inspected := members_inspected st + 1\<rparr>);
              occurrence = occurrences (unit_member unit) + 1;
              suffix = occurrence_suffix occurrence
          in (member_name name (unit_member unit) @ suffix,
              occurrences(unit_member unit := occurrence),
              log [[], text_of ''#### `'' @ unit_member unit @ text_of ''`'' @ suffix] st))"

definition report_unit :: "re_tables \<Rightarrow> modes \<Rightarrow> (pystr \<times> modes) list \<Rightarrow> pystr \<Rightarrow> elf_unit
    \<Rightarrow> bool \<times> (pystr \<Rightarrow> nat) \<times> totals \<Rightarrow> bool \<times> (pystr \<Rightarrow> nat) \<times> totals" where
  "report_unit t modes overrides name unit acc =
     (case acc of (file_failed, occurrences, st) \<Rightarrow>
      case enter_member name unit (occurrences, st) of (item, occurrences, st) \<Rightarrow>
        let st = log [[], text_of ''```text''] st in
        if unit_error unit \<noteq> [] then
          (file_failed, occurrences,
           log [text_of ''  ERROR: '' @ unit_error unit, text_of ''```'']
             (st\<lparr>report_errors := report_errors st @ [item @ text_of '': '' @ unit_error unit]\<rparr>))
        else if unit_skipped unit \<noteq> [] then
          (file_failed, occurrences,
           log [text_of ''  SKIPPED: '' @ unit_skipped unit, text_of ''```'']
             (st\<lparr>skipped_items := skipped_items st + 1\<rparr>))
        else
          let st = st\<lparr>code_items := code_items st + 1\<rparr>;
              item_modes = effective_modes name (unit_member unit) modes overrides;
              (item_failed, st) =
                fold (check_item t name item item_modes (the (unit_evidence unit))) check_names (False, st);
              st = log [text_of ''```''] st
          in (file_failed \<or> item_failed, occurrences,
              if item_failed then st\<lparr>failed_items := failed_items st + 1\<rparr> else st))"

section \<open>All artifacts\<close>

type_synonym readelf = "path \<Rightarrow> pystr + readelf_result"

text \<open>\<open>inspect\<close>, where an error of running readelf is a unit of its own.\<close>

definition inspect :: "re_tables \<Rightarrow> readelf \<Rightarrow> path \<Rightarrow> artifact_kind \<Rightarrow> elf_unit list" where
  "inspect t readelf p kind =
     (case readelf p of
        Inl e \<Rightarrow> [error_unit [] e]
      | Inr result \<Rightarrow> inspect_output t (path_str p) kind result)"

definition enter_file :: "(path \<Rightarrow> path) \<Rightarrow> pystr \<Rightarrow> path \<times> artifact_kind \<Rightarrow> elf_unit list \<Rightarrow> totals \<Rightarrow> totals" where
  "enter_file real name artifact units st =
     (case artifact of (p, kind) \<Rightarrow>
        let st = st\<lparr>files := (files st)(kind := files st kind @ [path_str (real p)])\<rparr>;
            st = log [[], text_of ''### `'' @ name @ text_of ''` ['' @ kind_name kind @ text_of '']''] st
        in if list_ex (\<lambda>unit. unit_error unit \<noteq> []) units then st
           else st\<lparr>checked := checked st + 1,
                  inspected_by_kind := (inspected_by_kind st)(kind := inspected_by_kind st kind + 1)\<rparr>)"

definition report_file :: "re_tables \<Rightarrow> readelf \<Rightarrow> (path \<Rightarrow> path) \<Rightarrow> path \<Rightarrow> modes \<Rightarrow> (pystr \<times> modes) list
    \<Rightarrow> path \<times> artifact_kind \<Rightarrow> totals \<Rightarrow> totals" where
  "report_file t readelf real base modes overrides artifact st =
     (let name = rel_path (fst artifact) base;
          units = inspect t readelf (fst artifact) (snd artifact);
          (file_failed, _, st) =
            fold (report_unit t modes overrides name) units
              (False, (\<lambda>_. 0), enter_file real name artifact units st)
      in if file_failed then st\<lparr>failures := failures st + 1\<rparr> else st)"

definition report_totals :: "re_tables \<Rightarrow> readelf \<Rightarrow> (path \<Rightarrow> path) \<Rightarrow> path \<Rightarrow> modes \<Rightarrow> (pystr \<times> modes) list
    \<Rightarrow> (path \<times> artifact_kind) list \<Rightarrow> pystr list \<Rightarrow> totals" where
  "report_totals t readelf real base modes overrides arts errs =
     fold (report_file t readelf real base modes overrides) arts (totals_start errs)"

section \<open>The text\<close>

definition expected_modes :: "modes \<Rightarrow> totals \<Rightarrow> pystr \<Rightarrow> check_mode list" where
  "expected_modes modes st check =
     (if used_modes st check = [] then [mode_of modes check] else used_modes st check)"

definition expectation :: "modes \<Rightarrow> totals \<Rightarrow> pystr \<Rightarrow> pystr" where
  "expectation modes st check =
     (case expected_modes modes st check of [m] \<Rightarrow> mode_name m | _ \<Rightarrow> text_of ''varies'')"

definition enforced :: "modes \<Rightarrow> totals \<Rightarrow> pystr list" where
  "enforced modes st = filter (\<lambda>check. set (expected_modes modes st check) \<noteq> {Ignore}) check_names"

abbreviation cell :: string where "cell \<equiv> '' | ''"

definition failure_row :: "modes \<Rightarrow> totals \<Rightarrow> pystr \<Rightarrow> pystr" where
  "failure_row modes st check =
     (let groups = failures_by_check st check;
          on = check \<in> set (enforced modes st);
          total = (if on then text_of ''['' @ str_nat (length groups) @ text_of ''](#'' @ check @ text_of '')''
                   else text_of ''-'');
          items = (if on then str_nat (sum_list (map (fst \<circ> snd) groups)) else text_of ''-'')
      in text_of ''| '' @ pad_right 18 check @ text_of cell @ pad_right 8 (expectation modes st check) @
         text_of cell @ pad_right 32 total @ text_of cell @ pad_left 12 items @ text_of '' |'')"

definition kind_row :: "totals \<Rightarrow> artifact_kind \<Rightarrow> pystr" where
  "kind_row st kind =
     (let n = length (files st kind); i = inspected_by_kind st kind in
      text_of ''| '' @ pad_right 14 (kind_name kind) @ text_of cell @ pad_left 7 (str_nat n) @ text_of cell @
      pad_left 9 (str_nat i) @ text_of cell @ pad_left 6 (str_nat (n - i)) @ text_of '' |'')"

definition fenced :: "pystr list \<Rightarrow> pystr list" where
  "fenced ls = (if ls = [] then [text_of ''None''] else [text_of ''```text''] @ ls @ [text_of ''```''])"

definition failure_section :: "modes \<Rightarrow> totals \<Rightarrow> pystr \<Rightarrow> pystr list" where
  "failure_section modes st check =
     (let groups = failures_by_check st check;
          total = sum_list (map (fst \<circ> snd) groups);
          entries = map (\<lambda>(name, count, first).
              if count = 1 then first
              else name @ text_of '': '' @ str_nat count @ text_of '' member failures; see File details'') groups
      in [[], text_of ''### '' @ check, [],
          text_of ''Expected '' @ expectation modes st check @ text_of '': '' @ str_nat total @ text_of '' '' @
            (if total = 1 then text_of ''failure'' else text_of ''failures''), []] @ fenced entries)"

definition inventory :: "totals \<Rightarrow> artifact_kind \<times> string \<Rightarrow> pystr list" where
  "inventory st kt =
     (case kt of (kind, title) \<Rightarrow>
        [[], text_of ''## '' @ text_of title @ text_of '' ('' @ str_nat (length (files st kind)) @ text_of '')'',
         [], text_of ''```text''] @ files st kind @ [text_of ''```''])"

definition summary_row :: "modes \<Rightarrow> totals \<Rightarrow> pystr \<Rightarrow> pystr" where
  "summary_row modes st check =
     text_of ''  '' @ check @ text_of '' (expectation: '' @ expectation modes st check @ text_of ''): '' @
     join_with (text_of '', '')
       (map (\<lambda>s. state_name s @ text_of ''='' @ str_nat (counts st check s)) STATES)"

definition report_text :: "path \<Rightarrow> nat \<Rightarrow> modes \<Rightarrow> totals \<Rightarrow> pystr" where
  "report_text config_path number modes st =
     join_with [10] (
       [text_of ''# Build artifact report'', [],
        text_of ''Config: '' @ path_str config_path,
        text_of ''Paths relative to: '' @ path_str (path_parent config_path),
        text_of ''Files checked: '' @ str_nat number @ text_of ''; inspected: '' @ str_nat (checked st) @
          text_of ''; files failing expectations: '' @ str_nat (failures st) @ text_of ''; errors: '' @
          str_nat (length (report_errors st)),
        text_of ''Check items: '' @ str_nat (code_items st) @ text_of ''; failing expectations: '' @
          str_nat (failed_items st) @ text_of ''; metadata items skipped: '' @ str_nat (skipped_items st),
        text_of ''Evidence checks only; inconclusive results fail either expectation.'',
        text_of ''Archive members are checked separately; Rust metadata-only items are listed as skipped.'',
        text_of ''Inventory paths are absolute.'',
        [], text_of ''## Failure counts'', [],
        text_of ''| Check              | Expected | Failed files                     | Failed items |'',
        text_of ''| ------------------ | -------- | -------------------------------- | ------------ |''] @
       map (failure_row modes st) check_names @
       [[], text_of ''An item is an object, binary, or individual archive member, excluding Rust metadata-only items.'',
        text_of ''Archives with multiple failures have one summary line; every member result appears under File details.'',
        text_of ''Ignored checks have no failure count. 'varies' means path rules set different expectations.'',
        [], text_of ''## File counts'', [],
        text_of ''| Type           | Checked | Inspected | Errors |'',
        text_of ''| -------------- | ------- | --------- | ------ |''] @
       map (kind_row st) [ObjectFile, BinaryFile, ArchiveFile] @
       [text_of ''| archive member | '' @ pad_left 7 (str_nat (members_checked st)) @ text_of cell @
          pad_left 9 (str_nat (members_inspected st)) @ text_of cell @
          pad_left 6 (str_nat (members_failed st)) @ text_of '' |'',
        [], text_of ''The archive member row counts members read within archives; it is not an additional file total.'',
        [], text_of ''## Failures'', []] @
       (if enforced modes st = [] then [text_of ''No expectations configured for the checked items.''] else []) @
       concat (map (failure_section modes st) (enforced modes st)) @
       [[], text_of ''## Inspection errors ('' @ str_nat (length (report_errors st)) @ text_of '')'', []] @
       fenced (report_errors st) @
       concat (map (inventory st)
         [(ObjectFile, ''Objects''), (BinaryFile, ''Binaries''), (ArchiveFile, ''Archives'')]) @
       [[], text_of ''## Evidence key'', [], text_of ''```text'',
        text_of ''FOUND = strong reference or nonempty instrumentation section (libfuzzer: driver symbol).'',
        text_of ''SYMBOL-ONLY = definition or optional weak reference; instrumentation use is unproven.'',
        text_of ''NOT-SEEN = no evidence in available tables; compiler options and symbol completeness are unproven.'',
        text_of ''UNKNOWN = symbol table unavailable, usually due to stripping.'',
        text_of ''SKIPPED = identified Rust metadata with no runtime code or data.'',
        text_of ''```'', [], text_of ''## Check summary'', [], text_of ''```text''] @
       map (summary_row modes st) check_names @
       [text_of ''```'', [], text_of ''## File details''] @ details st)
     @ [10]"

definition make_report :: "re_tables \<Rightarrow> readelf \<Rightarrow> (path \<Rightarrow> path) \<Rightarrow> path \<Rightarrow> modes \<Rightarrow> (pystr \<times> modes) list
    \<Rightarrow> (path \<times> artifact_kind) list \<Rightarrow> pystr list \<Rightarrow> pystr \<times> nat \<times> pystr list" where
  "make_report t readelf real config_path modes overrides arts errs =
     (let st = report_totals t readelf real (path_parent config_path) modes overrides arts errs
      in (report_text config_path (length arts) modes st, failures st, report_errors st))"

section \<open>What the totals count\<close>

text \<open>The verdicts, without the bookkeeping.\<close>

definition check_fails :: "re_tables \<Rightarrow> modes \<Rightarrow> evidence \<Rightarrow> pystr \<Rightarrow> bool" where
  "check_fails t item_modes ev check \<longleftrightarrow> policy_failed (mode_of item_modes check) (fst (detect t check ev))"

definition is_code :: "elf_unit \<Rightarrow> bool" where
  "is_code unit \<longleftrightarrow> unit_error unit = [] \<and> unit_skipped unit = []"

definition item_fails :: "re_tables \<Rightarrow> modes \<Rightarrow> (pystr \<times> modes) list \<Rightarrow> pystr \<Rightarrow> elf_unit \<Rightarrow> bool" where
  "item_fails t modes overrides name unit \<longleftrightarrow> is_code unit
     \<and> list_ex (check_fails t (effective_modes name (unit_member unit) modes overrides) (the (unit_evidence unit)))
         check_names"

definition file_fails :: "re_tables \<Rightarrow> readelf \<Rightarrow> path \<Rightarrow> modes \<Rightarrow> (pystr \<times> modes) list
    \<Rightarrow> path \<times> artifact_kind \<Rightarrow> bool" where
  "file_fails t readelf base modes overrides a \<longleftrightarrow>
     list_ex (item_fails t modes overrides (rel_path (fst a) base)) (inspect t readelf (fst a) (snd a))"

definition states_sum :: "totals \<Rightarrow> pystr \<Rightarrow> nat" where
  "states_sum st check = sum_list (map (counts st check) STATES)"

lemma log_fields [simp]:
  "files (log ls st) = files st" "members_checked (log ls st) = members_checked st"
  "members_inspected (log ls st) = members_inspected st" "members_failed (log ls st) = members_failed st"
  "counts (log ls st) = counts st" "failures (log ls st) = failures st"
  "code_items (log ls st) = code_items st" "failed_items (log ls st) = failed_items st"
  "report_errors (log ls st) = report_errors st" "states_sum (log ls st) = states_sum st"
  "failures_by_check (log ls st) = failures_by_check st" "used_modes (log ls st) = used_modes st"
  by (simp_all add: log_def states_sum_def fun_eq_iff)

definition same_totals :: "totals \<Rightarrow> totals \<Rightarrow> bool" where
  "same_totals st st' \<longleftrightarrow> failures st' = failures st \<and> code_items st' = code_items st
     \<and> failed_items st' = failed_items st \<and> report_errors st' = report_errors st
     \<and> members_checked st' = members_checked st \<and> members_inspected st' = members_inspected st
     \<and> members_failed st' = members_failed st"

lemma states_sum_bump:
  assumes "counts st' = (counts st)(check := (counts st check)(s := counts st check s + 1))"
  shows "states_sum st' c = states_sum st c + (if c = check then 1 else 0)"
  using assms by (cases s) (simp_all add: states_sum_def STATES_def)

lemma check_item_totals:
  assumes "check_item t name item m ev check (f, st) = (f', st')"
  shows "same_totals st st'" "f' \<longleftrightarrow> f \<or> check_fails t m ev check"
    "states_sum st' c = states_sum st c + (if c = check then 1 else 0)"
proof -
  show "same_totals st st'" "f' \<longleftrightarrow> f \<or> check_fails t m ev check"
    using assms by (auto simp: check_item_def Let_def same_totals_def check_fails_def split: prod.splits if_splits)
  show "states_sum st' c = states_sum st c + (if c = check then 1 else 0)"
  proof (rule states_sum_bump)
    show "counts st' = (counts st)(check := (counts st check)
        (fst (detect t check ev) := counts st check (fst (detect t check ev)) + 1))"
      using assms by (auto simp: check_item_def Let_def split: prod.splits if_splits)
  qed
qed

lemma same_totals_trans: "same_totals a b \<Longrightarrow> same_totals b c \<Longrightarrow> same_totals a c"
  by (simp add: same_totals_def)

lemma check_items_totals:
  assumes "fold (check_item t name item m ev) cs (f, st) = (f', st')" "distinct cs"
  shows "same_totals st st' \<and> (f' \<longleftrightarrow> f \<or> list_ex (check_fails t m ev) cs)
    \<and> states_sum st' c = states_sum st c + (if c \<in> set cs then 1 else 0)"
  using assms
proof (induction cs arbitrary: f st)
  case Nil
  then show ?case by (simp add: same_totals_def)
next
  case (Cons check cs)
  obtain f1 st1 where one: "check_item t name item m ev check (f, st) = (f1, st1)"
    by (cases "check_item t name item m ev check (f, st)")
  note h = check_item_totals [OF one]
  have "same_totals st1 st' \<and> (f' \<longleftrightarrow> f1 \<or> list_ex (check_fails t m ev) cs)
      \<and> states_sum st' c = states_sum st1 c + (if c \<in> set cs then 1 else 0)"
    using Cons one by simp
  with h Cons.prems(2) same_totals_trans [OF h(1)] show ?case by auto
qed

lemma distinct_check_names: "distinct check_names"
  by (simp add: check_names_def CHECKS_def latin1_def)

text \<open>One unit adds to the totals what it is.\<close>

definition count_of :: "bool \<Rightarrow> nat" where "count_of b = (if b then 1 else 0)"

lemma count_of_simps [simp]: "count_of True = 1" "count_of False = 0"
  by (simp_all add: count_of_def)

lemma enter_member_totals:
  assumes "enter_member name unit (occ, st) = (item, occ', st')"
  shows "failures st' = failures st" "code_items st' = code_items st" "failed_items st' = failed_items st"
    "report_errors st' = report_errors st" "states_sum st' = states_sum st"
    "members_checked st + members_inspected st' + members_failed st'
       = members_checked st' + members_inspected st + members_failed st"
  using assms
  by (auto simp: enter_member_def Let_def states_sum_def fun_eq_iff split: if_splits)

lemma report_unit_totals:
  assumes "report_unit t modes ovs name unit (f, occ, st) = (f', occ', st')"
  shows "f' \<longleftrightarrow> f \<or> item_fails t modes ovs name unit"
    "failures st' = failures st"
    "code_items st' = code_items st + count_of (is_code unit)"
    "failed_items st' = failed_items st + count_of (item_fails t modes ovs name unit)"
    "length (report_errors st') = length (report_errors st) + count_of (unit_error unit \<noteq> [])"
    "c \<in> set check_names \<Longrightarrow> states_sum st' c = states_sum st c + count_of (is_code unit)"
    "members_checked st + members_inspected st' + members_failed st'
       = members_checked st' + members_inspected st + members_failed st"
proof -
  obtain item occ1 st1 where e: "enter_member name unit (occ, st) = (item, occ1, st1)"
    by (cases "enter_member name unit (occ, st)")
  note en = enter_member_totals [OF e]
  let ?m = "effective_modes name (unit_member unit) modes ovs"
  let ?st2 = "(log [[], text_of ''```text''] st1)\<lparr>code_items := code_items st1 + 1\<rparr>"
  obtain g st3 where fd: "fold (check_item t name item ?m (the (unit_evidence unit))) check_names (False, ?st2)
      = (g, st3)"
    by (cases "fold (check_item t name item ?m (the (unit_evidence unit))) check_names (False, ?st2)")
  have k: "same_totals ?st2 st3" "g \<longleftrightarrow> list_ex (check_fails t ?m (the (unit_evidence unit))) check_names"
    "c \<in> set check_names \<Longrightarrow> states_sum st3 c = states_sum ?st2 c + 1"
    using check_items_totals [OF fd distinct_check_names, of c] by auto
  have s: "states_sum (x\<lparr>code_items := n\<rparr>) = states_sum x" "states_sum (x\<lparr>report_errors := es\<rparr>) = states_sum x"
    "states_sum (x\<lparr>skipped_items := n\<rparr>) = states_sum x" "states_sum (x\<lparr>failed_items := n\<rparr>) = states_sum x" for x n es
    by (simp_all add: states_sum_def fun_eq_iff)
  consider (error) "unit_error unit \<noteq> []" | (skip) "unit_error unit = []" "unit_skipped unit \<noteq> []"
    | (code) "is_code unit" by (auto simp: is_code_def)
  then have "(f' \<longleftrightarrow> f \<or> item_fails t modes ovs name unit)
    \<and> failures st' = failures st
    \<and> code_items st' = code_items st + count_of (is_code unit)
    \<and> failed_items st' = failed_items st + count_of (item_fails t modes ovs name unit)
    \<and> length (report_errors st') = length (report_errors st) + count_of (unit_error unit \<noteq> [])
    \<and> (c \<in> set check_names \<longrightarrow> states_sum st' c = states_sum st c + count_of (is_code unit))
    \<and> members_checked st + members_inspected st' + members_failed st'
       = members_checked st' + members_inspected st + members_failed st"
  proof cases
    case error
    with assms e en show ?thesis
      by (auto simp: report_unit_def Let_def item_fails_def is_code_def s)
  next
    case skip
    with assms e en show ?thesis
      by (auto simp: report_unit_def Let_def item_fails_def is_code_def s)
  next
    case code
    have eq: "f' = (f \<or> g)" "st' = (let st4 = log [text_of ''```''] st3 in
        if g then st4\<lparr>failed_items := failed_items st4 + 1\<rparr> else st4)"
      using assms code e fd by (auto simp: report_unit_def Let_def is_code_def)
    with code k en show ?thesis
      by (auto simp: item_fails_def same_totals_def Let_def s is_code_def)
  qed
  then show "f' \<longleftrightarrow> f \<or> item_fails t modes ovs name unit"
    "failures st' = failures st"
    "code_items st' = code_items st + count_of (is_code unit)"
    "failed_items st' = failed_items st + count_of (item_fails t modes ovs name unit)"
    "length (report_errors st') = length (report_errors st) + count_of (unit_error unit \<noteq> [])"
    "c \<in> set check_names \<Longrightarrow> states_sum st' c = states_sum st c + count_of (is_code unit)"
    "members_checked st + members_inspected st' + members_failed st'
       = members_checked st' + members_inspected st + members_failed st"
    by blast+
qed


text \<open>All units of a file, and then all files.\<close>

definition unit_sums :: "re_tables \<Rightarrow> modes \<Rightarrow> (pystr \<times> modes) list \<Rightarrow> (pystr \<times> elf_unit) list \<Rightarrow> totals \<Rightarrow> totals \<Rightarrow> bool" where
  "unit_sums t modes ovs us st st' \<longleftrightarrow>
     code_items st' = code_items st + length (filter (is_code \<circ> snd) us)
     \<and> failed_items st' = failed_items st + length (filter (\<lambda>(name, u). item_fails t modes ovs name u) us)
     \<and> length (report_errors st') = length (report_errors st) + length (filter (\<lambda>(name, u). unit_error u \<noteq> []) us)
     \<and> (\<forall>c \<in> set check_names. states_sum st' c = states_sum st c + length (filter (is_code \<circ> snd) us))
     \<and> members_checked st + members_inspected st' + members_failed st'
         = members_checked st' + members_inspected st + members_failed st"

lemma unit_sums_append:
  "unit_sums t modes ovs us a b \<Longrightarrow> unit_sums t modes ovs vs b c \<Longrightarrow> unit_sums t modes ovs (us @ vs) a c"
  by (auto simp: unit_sums_def)

lemma unit_sums_Nil: "unit_sums t modes ovs [] st st"
  by (simp add: unit_sums_def)

lemma report_unit_sums:
  assumes "report_unit t modes ovs name unit (f, occ, st) = (f', occ', st')"
  shows "unit_sums t modes ovs [(name, unit)] st st'"
  using report_unit_totals [OF assms] by (auto simp: unit_sums_def)

lemma report_units_totals:
  assumes "fold (report_unit t modes ovs name) us (f, occ, st) = (f', occ', st')"
  shows "(f' \<longleftrightarrow> f \<or> list_ex (item_fails t modes ovs name) us) \<and> failures st' = failures st
    \<and> unit_sums t modes ovs (map (Pair name) us) st st'"
  using assms
proof (induction us arbitrary: f occ st)
  case Nil
  then show ?case by (simp add: unit_sums_Nil)
next
  case (Cons u us)
  obtain f1 occ1 st1 where one: "report_unit t modes ovs name u (f, occ, st) = (f1, occ1, st1)"
    by (cases "report_unit t modes ovs name u (f, occ, st)")
  have rest: "(f' \<longleftrightarrow> f1 \<or> list_ex (item_fails t modes ovs name) us) \<and> failures st' = failures st1
      \<and> unit_sums t modes ovs (map (Pair name) us) st1 st'"
    using Cons.IH [of f1 occ1 st1] Cons.prems one by simp
  then have "unit_sums t modes ovs ([(name, u)] @ map (Pair name) us) st st'"
    by (intro unit_sums_append [OF report_unit_sums [OF one]]) simp
  with rest report_unit_totals(1,2) [OF one] show ?case by auto
qed

definition named_units :: "re_tables \<Rightarrow> readelf \<Rightarrow> path \<Rightarrow> path \<times> artifact_kind \<Rightarrow> (pystr \<times> elf_unit) list" where
  "named_units t readelf base a =
     map (Pair (rel_path (fst a) base)) (inspect t readelf (fst a) (snd a))"

lemma report_file_totals:
  "failures (report_file t readelf real base modes ovs a st) =
     failures st + count_of (file_fails t readelf base modes ovs a)
   \<and> unit_sums t modes ovs (named_units t readelf base a) st (report_file t readelf real base modes ovs a st)"
proof -
  obtain p kind where a: "a = (p, kind)" by (cases a)
  let ?name = "rel_path p base"
  let ?us = "inspect t readelf p kind"
  let ?st1 = "enter_file real ?name a ?us st"
  have st1: "failures ?st1 = failures st" "unit_sums t modes ovs us ?st1 st' = unit_sums t modes ovs us st st'" for us st'
    by (simp_all add: enter_file_def a Let_def unit_sums_def states_sum_def)
  obtain f occ st2 where fd: "fold (report_unit t modes ovs ?name) ?us (False, (\<lambda>_. 0), ?st1) = (f, occ, st2)"
    by (cases "fold (report_unit t modes ovs ?name) ?us (False, (\<lambda>_. 0), ?st1)")
  have "unit_sums t modes ovs us x (y\<lparr>failures := n\<rparr>) = unit_sums t modes ovs us x y" for us x y n
    by (simp add: unit_sums_def states_sum_def)
  with report_units_totals [OF fd] st1 fd show ?thesis
    by (simp add: a file_fails_def named_units_def report_file_def)
qed

lemma report_totals_sums:
  "failures (fold (report_file t readelf real base modes ovs) arts st) =
     failures st + length (filter (file_fails t readelf base modes ovs) arts)
   \<and> unit_sums t modes ovs (concat (map (named_units t readelf base) arts)) st
       (fold (report_file t readelf real base modes ovs) arts st)"
proof (induction arts arbitrary: st)
  case Nil
  then show ?case by (simp add: unit_sums_Nil)
next
  case (Cons a arts)
  note one = report_file_totals [of t readelf real base modes ovs a st]
  from Cons [of "report_file t readelf real base modes ovs a st"] one show ?case
    by (auto intro: unit_sums_append)
qed

text \<open>
  C39. The report counts what was judged: the failing files are those with a failing item,
  every error of a unit adds one to the errors, the failing items and the items with code are
  counted once each, every check has one state for each item with code, and the members read
  are those inspected and those in error.
\<close>

theorem report_counts:
  assumes "st = report_totals t readelf real base modes ovs arts errs"
    and "units = concat (map (named_units t readelf base) arts)"
  shows "failures st = length (filter (file_fails t readelf base modes ovs) arts)
    \<and> failed_items st = length (filter (\<lambda>(name, u). item_fails t modes ovs name u) units)
    \<and> code_items st = length (filter (is_code \<circ> snd) units)
    \<and> length (report_errors st) = length errs + length (filter (\<lambda>(name, u). unit_error u \<noteq> []) units)
    \<and> (\<forall>c \<in> set check_names. states_sum st c = code_items st)
    \<and> members_checked st = members_inspected st + members_failed st"
proof -
  have z: "failures (totals_start errs) = 0" "code_items (totals_start errs) = 0"
    "failed_items (totals_start errs) = 0" "report_errors (totals_start errs) = errs"
    "members_checked (totals_start errs) = 0" "members_inspected (totals_start errs) = 0"
    "members_failed (totals_start errs) = 0" "states_sum (totals_start errs) c = 0" for c
    by (simp_all add: totals_start_def states_sum_def)
  show ?thesis
    using report_totals_sums [of t readelf real base modes ovs arts "totals_start errs"]
    unfolding assms report_totals_def unit_sums_def z by simp
qed

text \<open>One object that uses MemorySanitizer where it must not.\<close>

lemma report_counts_witness:
  "failures (report_totals plain_tables (\<lambda>_. Inr (0, sample_out, [])) (\<lambda>p. p) (Path [47] [])
     [text_of ''msan'' \<mapsto> Absent] [] [(Path [47] [[120]], ObjectFile)] []) = 1"
proof -
  have d: "readelf_diagnostic 0 [] = []"
    by (simp add: readelf_diagnostic_def str_strip_def strip_by_def rstrip_by_def)
  have u: "inspect plain_tables (\<lambda>_. Inr (0, sample_out, [])) (Path [47] [[120]]) ObjectFile =
      [\<lparr>unit_member = [], unit_evidence = Some sample_evidence, unit_error = [], unit_skipped = []\<rparr>]"
    by (simp add: inspect_def inspect_output_def d member_unit_def sample_parse)
  have "re_fullmatch plain_tables (seq [word ''__msan_'', any_text]) (text_of ''__msan_init'')"
    by (simp add: re_fullmatch_def latin1_def not_newline_def)
  then have "direct_evidence plain_tables (text_of ''msan'') sample_evidence"
    by (simp add: direct_evidence_def msan_patterns hit_def sample_evidence_def)
  then have "fst (detect plain_tables (text_of ''msan'') sample_evidence) = Found"
    by (simp add: detect_by_evidence)
  then have "check_fails plain_tables [text_of ''msan'' \<mapsto> Absent] sample_evidence (text_of ''msan'')"
    by (simp add: check_fails_def mode_of_def policy_failed_def)
  moreover have "text_of ''msan'' \<in> set check_names"
    by (simp add: check_names_def CHECKS_def)
  ultimately have "file_fails plain_tables (\<lambda>_. Inr (0, sample_out, [])) (Path [47] [])
      [text_of ''msan'' \<mapsto> Absent] [] (Path [47] [[120]], ObjectFile)"
    by (auto simp: file_fails_def u item_fails_def is_code_def list_ex_iff effective_modes_def)
  then show ?thesis
    using report_counts [OF refl refl, of plain_tables "\<lambda>_. Inr (0, sample_out, [])" "\<lambda>p. p" "Path [47] []"
        "[text_of ''msan'' \<mapsto> Absent]" "[]" "[(Path [47] [[120]], ObjectFile)]" "[]"]
    by simp
qed

end
