(* ===== verification/Checker.thy ===== *)
theory Checker
  imports Report
begin

text \<open>
  The main function of check_build.py: loading the configuration, finding the artifacts, the
  guards that keep the report from overwriting anything it reads, the report and the exit
  status. The machine it runs on is a record of parameters.
\<close>

section \<open>main\<close>

text \<open>
  What main asks of its surroundings, beside the file system and readelf: the decoded
  configuration file, whether readelf is installed, its own resolved path, existence and
  identity of files (\<open>None\<close> when asking raises an \<open>OSError\<close>), their link count, and whether
  creating the report's directory and writing it succeed.
\<close>

record machine =
  mc_fs :: file_system
  mc_readelf :: readelf
  mc_config :: "pystr + pystr"
  mc_has_readelf :: bool
  mc_checker :: path
  mc_exists :: "path \<Rightarrow> bool option"
  mc_samefile :: "path \<Rightarrow> path \<Rightarrow> bool option"
  mc_links :: "path \<Rightarrow> nat"
  mc_mkdir :: "path \<Rightarrow> bool"
  mc_writes :: "path \<Rightarrow> bool"

text \<open>Names of objects, archives and shared libraries.\<close>

definition so_rx :: rx where
  "so_rx = seq [word ''.so'', opt (seq [word ''.'', any_text]), LineEnd]"

definition artifact_name :: "re_tables \<Rightarrow> path \<Rightarrow> bool" where
  "artifact_name t p \<longleftrightarrow>
     path_suffix p \<in> set (map latin1 [''.o'', ''.obj'', ''.lo'', ''.ko'', ''.a'', ''.rlib'', ''.bc''])
     \<or> re_search t so_rx (path_name p)"

definition PROTECTED_MAGICS :: "bytes list" where
  "PROTECTED_MAGICS = ELF_MAGIC # ARCHIVE_MAGICS @ BITCODE_MAGICS"

definition main_inputs :: "machine \<Rightarrow> path \<Rightarrow> config \<Rightarrow> (path \<times> artifact_kind) list \<Rightarrow> path list" where
  "main_inputs mc config_path cfg arts =
     map fst arts @ map (fs_realpath (mc_fs mc)) (cfg_binaries cfg) @ [config_path, mc_checker mc]"

text \<open>The guards on the report's path, as configured and resolved; \<open>False\<close> where main raises.\<close>

definition existing_ok :: "machine \<Rightarrow> path \<Rightarrow> bool" where
  "existing_ok mc target =
     (case mc_exists mc target of
        None \<Rightarrow> False
      | Some False \<Rightarrow> True
      | Some True \<Rightarrow> case fs_regular (mc_fs mc) target of
        Inl _ \<Rightarrow> False
      | Inr regular \<Rightarrow>
          regular \<and> mc_links mc target \<le> 1 \<and>
          (case fs_bytes (mc_fs mc) target of
             Inl _ \<Rightarrow> False
           | Inr contents \<Rightarrow> \<not> starts_with_any PROTECTED_MAGICS (take 8 contents)))"

text \<open>
  \<open>report_path.exists() and path.exists() and report_path.samefile(path)\<close>. The inputs are a
  set: whichever comes first, a match and an error both end in the same exit status.
\<close>

definition same_input :: "machine \<Rightarrow> path \<Rightarrow> path \<Rightarrow> bool option" where
  "same_input mc target p =
     (case mc_exists mc target of
        Some True \<Rightarrow> (case mc_exists mc p of Some True \<Rightarrow> mc_samefile mc target p | r \<Rightarrow> r)
      | r \<Rightarrow> r)"

definition target_ok :: "re_tables \<Rightarrow> machine \<Rightarrow> path list \<Rightarrow> path \<Rightarrow> path \<Rightarrow> bool" where
  "target_ok t mc inputs configured target =
     (if artifact_name t configured \<or> artifact_name t target then False
      else if target \<in> set inputs
          \<or> list_ex (\<lambda>p. same_input mc target p \<noteq> Some False) inputs then False
      else existing_ok mc target)"

text \<open>The exit status, and the report main starts to write.\<close>

definition checker_main :: "re_tables \<Rightarrow> unicode \<Rightarrow> machine \<Rightarrow> path \<Rightarrow> nat \<times> (path \<times> pystr) option" where
  "checker_main t u mc config_path =
     (case mc_config mc of
        Inl _ \<Rightarrow> (2, None)
      | Inr contents \<Rightarrow>
      case load_config u config_path contents of
        Inl _ \<Rightarrow> (2, None)
      | Inr cfg \<Rightarrow>
        if \<not> mc_has_readelf mc then (2, None)
        else case discover (mc_fs mc) (cfg_objects cfg) (cfg_binaries cfg) (cfg_excludes cfg)
                    (path_parent config_path) of (arts, errs) \<Rightarrow>
        let target = fs_realpath (mc_fs mc) (cfg_report cfg) in
        if \<not> target_ok t mc (main_inputs mc config_path cfg arts) (cfg_report cfg) target then (2, None)
        else case make_report t (mc_readelf mc) (fs_realpath (mc_fs mc)) config_path
                    (cfg_modes cfg) (cfg_overrides cfg) arts errs of (report, failed, errs) \<Rightarrow>
        if \<not> mc_mkdir mc (path_parent target) then (2, None)
        else if \<not> mc_writes mc target then (2, Some (target, report))
        else (if errs \<noteq> [] then 2 else if failed \<noteq> 0 then 1 else 0, Some (target, report)))"

section \<open>The verdict\<close>

text \<open>What an expectation means for the evidence of an item.\<close>

definition expectation_met :: "re_tables \<Rightarrow> check_mode \<Rightarrow> pystr \<Rightarrow> evidence \<Rightarrow> bool" where
  "expectation_met t mode check ev =
     (case mode of
        Present \<Rightarrow> direct_evidence t check ev
      | Absent \<Rightarrow> ev_symbols_present ev \<and> \<not> some_evidence t check ev
      | Ignore \<Rightarrow> True)"

definition item_meets :: "re_tables \<Rightarrow> config \<Rightarrow> pystr \<times> elf_unit \<Rightarrow> bool" where
  "item_meets t cfg nu \<longleftrightarrow>
     (case nu of (name, unit) \<Rightarrow> unit_skipped unit \<noteq> [] \<or>
        list_all (\<lambda>check. expectation_met t
            (mode_of (effective_modes name (unit_member unit) (cfg_modes cfg) (cfg_overrides cfg)) check)
            check (the (unit_evidence unit))) check_names)"

lemma check_fails_met: "check_fails t m ev check \<longleftrightarrow> \<not> expectation_met t (mode_of m check) check ev"
proof -
  have "direct_evidence t check ev \<Longrightarrow> some_evidence t check ev" by (simp add: some_evidence_def)
  then show ?thesis
    by (cases "mode_of m check")
      (auto simp: check_fails_def expectation_met_def policy_failed_def detect_by_evidence)
qed

lemma item_fails_meets:
  "unit_error u = [] \<Longrightarrow>
     item_fails t (cfg_modes cfg) (cfg_overrides cfg) name u \<longleftrightarrow> \<not> item_meets t cfg (name, u)"
  by (auto simp: item_fails_def item_meets_def is_code_def check_fails_met list_ex_iff list_all_iff)

text \<open>A run that gets as far as the report.\<close>

definition reports :: "re_tables \<Rightarrow> unicode \<Rightarrow> machine \<Rightarrow> path \<Rightarrow> config
    \<Rightarrow> (path \<times> artifact_kind) list \<Rightarrow> pystr list \<Rightarrow> bool" where
  "reports t u mc config_path cfg arts errs \<longleftrightarrow>
     (\<exists>contents. mc_config mc = Inr contents \<and> load_config u config_path contents = Inr cfg)
     \<and> mc_has_readelf mc
     \<and> discover (mc_fs mc) (cfg_objects cfg) (cfg_binaries cfg) (cfg_excludes cfg) (path_parent config_path)
         = (arts, errs)"

lemma main_cases:
  assumes "checker_main t u mc config_path = (code, w)"
  obtains (early) "code = 2" "w = None"
  | (report) cfg arts errs target body failed errs' where
      "reports t u mc config_path cfg arts errs" "target = fs_realpath (mc_fs mc) (cfg_report cfg)"
      "target_ok t mc (main_inputs mc config_path cfg arts) (cfg_report cfg) target"
      "make_report t (mc_readelf mc) (fs_realpath (mc_fs mc)) config_path
         (cfg_modes cfg) (cfg_overrides cfg) arts errs = (body, failed, errs')"
      "w = Some (target, body)"
      "code = (if \<not> mc_writes mc target \<or> errs' \<noteq> [] then 2 else if failed \<noteq> 0 then 1 else 0)"
proof -
  have "(code = 2 \<and> w = None) \<or> (\<exists>cfg arts errs target body failed errs'.
      reports t u mc config_path cfg arts errs \<and> target = fs_realpath (mc_fs mc) (cfg_report cfg)
      \<and> target_ok t mc (main_inputs mc config_path cfg arts) (cfg_report cfg) target
      \<and> make_report t (mc_readelf mc) (fs_realpath (mc_fs mc)) config_path
         (cfg_modes cfg) (cfg_overrides cfg) arts errs = (body, failed, errs')
      \<and> w = Some (target, body)
      \<and> code = (if \<not> mc_writes mc target \<or> errs' \<noteq> [] then 2 else if failed \<noteq> 0 then 1 else 0))"
    using assms unfolding checker_main_def reports_def Let_def
    by (auto split: sum.splits prod.splits if_splits)
  with that show ?thesis by blast
qed

definition all_units :: "re_tables \<Rightarrow> machine \<Rightarrow> path \<Rightarrow> (path \<times> artifact_kind) list \<Rightarrow> (pystr \<times> elf_unit) list" where
  "all_units t mc config_path arts =
     concat (map (named_units t (mc_readelf mc) (path_parent config_path)) arts)"

lemma make_report_clean:
  assumes "make_report t (mc_readelf mc) real config_path (cfg_modes cfg) (cfg_overrides cfg) arts errs
      = (body, failed, errs')"
  shows "errs' = [] \<longleftrightarrow> errs = [] \<and> list_all (\<lambda>(name, u). unit_error u = []) (all_units t mc config_path arts)"
    and "failed = 0 \<longleftrightarrow> list_all (\<lambda>(name, u). \<not> item_fails t (cfg_modes cfg) (cfg_overrides cfg) name u)
        (all_units t mc config_path arts)"
proof -
  let ?base = "path_parent config_path"
  have "report_errors (totals_start errs) = errs" "failures (totals_start errs) = 0"
    by (simp_all add: totals_start_def)
  with report_totals_sums [of t "mc_readelf mc" real ?base "cfg_modes cfg" "cfg_overrides cfg" arts "totals_start errs"]
  have f: "failed = length (filter (file_fails t (mc_readelf mc) ?base (cfg_modes cfg) (cfg_overrides cfg)) arts)"
    and e: "length errs' = length errs + length (filter (\<lambda>(name, u). unit_error u \<noteq> []) (all_units t mc config_path arts))"
    using assms by (auto simp: make_report_def report_totals_def unit_sums_def all_units_def Let_def)
  have "errs' = [] \<longleftrightarrow> length errs' = 0" by simp
  also have "\<dots> \<longleftrightarrow> errs = [] \<and> filter (\<lambda>(name, u). unit_error u \<noteq> []) (all_units t mc config_path arts) = []"
    unfolding e by simp
  finally show "errs' = [] \<longleftrightarrow> errs = [] \<and> list_all (\<lambda>(name, u). unit_error u = []) (all_units t mc config_path arts)"
    by (auto simp: filter_empty_conv list_all_iff)
  show "failed = 0 \<longleftrightarrow> list_all (\<lambda>(name, u). \<not> item_fails t (cfg_modes cfg) (cfg_overrides cfg) name u)
        (all_units t mc config_path arts)"
    unfolding f by (auto simp: filter_empty_conv list_all_iff list_ex_iff file_fails_def all_units_def named_units_def)
qed

text \<open>A run that writes its report after finding and inspecting everything without an error.\<close>

definition clean_run :: "re_tables \<Rightarrow> unicode \<Rightarrow> machine \<Rightarrow> path \<Rightarrow> (path \<times> pystr) option \<Rightarrow> config
    \<Rightarrow> (path \<times> artifact_kind) list \<Rightarrow> bool" where
  "clean_run t u mc config_path w cfg arts \<longleftrightarrow>
     (\<exists>target report. w = Some (target, report) \<and> mc_writes mc target)
     \<and> reports t u mc config_path cfg arts []
     \<and> list_all (\<lambda>(name, u). unit_error u = []) (all_units t mc config_path arts)"

lemma reports_unique:
  assumes "reports t u mc config_path cfg arts errs" "reports t u mc config_path cfg' arts' errs'"
  shows "cfg' = cfg \<and> arts' = arts \<and> errs' = errs"
  using assms by (auto simp: reports_def)

lemma no_failed_meets:
  "list_all (\<lambda>(name, u). unit_error u = []) us \<Longrightarrow>
     list_all (\<lambda>(name, u). \<not> item_fails t (cfg_modes cfg) (cfg_overrides cfg) name u) us
       \<longleftrightarrow> list_all (item_meets t cfg) us"
  by (induction us) (auto simp: item_fails_meets)

lemma exit_status:
  assumes "checker_main t u mc config_path = (code, w)"
  shows "(code = 0 \<longleftrightarrow> (\<exists>cfg arts. clean_run t u mc config_path w cfg arts
            \<and> list_all (item_meets t cfg) (all_units t mc config_path arts)))
    \<and> (code = 1 \<longleftrightarrow> (\<exists>cfg arts. clean_run t u mc config_path w cfg arts
            \<and> \<not> list_all (item_meets t cfg) (all_units t mc config_path arts)))
    \<and> code \<le> 2"
  using assms
proof (cases rule: main_cases)
  case early
  then show ?thesis by (simp add: clean_run_def)
next
  case (report cfg arts errs target body failed errs')
  note clean = make_report_clean [OF report(4)]
  have run: "clean_run t u mc config_path w cfg' arts' \<longleftrightarrow>
      cfg' = cfg \<and> arts' = arts \<and> mc_writes mc target \<and> errs' = []" for cfg' arts'
    using report(1) reports_unique [OF report(1), of cfg' arts' "[]"]
    unfolding clean_run_def report(5) clean(1) by auto
  have meets: "failed = 0 \<longleftrightarrow> list_all (item_meets t cfg) (all_units t mc config_path arts)" if "errs' = []"
    using that clean no_failed_meets by blast
  show ?thesis
    unfolding run report(6) using meets by auto
qed

text \<open>
  C10. The exit status is the verdict: 0 exactly when the report is written, nothing went
  wrong in finding or inspecting the artifacts, and every item of every artifact meets the
  expectation of every check by its own evidence (direct evidence for \<open>present\<close>; a symbol
  table and no evidence at all for \<open>absent\<close>); 1 exactly when the same holds but an expectation
  is not met; 2 otherwise.
\<close>

theorem exit_status_is_verdict:
  assumes "checker_main t u mc config_path = (code, w)"
  shows "(code = 0 \<longleftrightarrow> (\<exists>cfg arts. clean_run t u mc config_path w cfg arts
            \<and> list_all (item_meets t cfg) (all_units t mc config_path arts)))
    \<and> (code = 1 \<longleftrightarrow> (\<exists>cfg arts. clean_run t u mc config_path w cfg arts
            \<and> \<not> list_all (item_meets t cfg) (all_units t mc config_path arts)))
    \<and> code \<le> 2"
  using assms by (rule exit_status)

text \<open>
  C40. The report never overwrites what it is about: whatever main starts to write goes to
  the resolved report path, which is no artifact, no configured binary, neither the
  configuration nor the checker, nor the same file as one of these under another name (an error
  in asking stops main as a match does); its name, before and after following links, is not that
  of an object, archive or shared library; and an existing file there is a regular file with one link that is no ELF, archive or
  bitcode file.
\<close>

theorem report_overwrites_no_input:
  assumes "checker_main t u mc config_path = (code, Some (target, body))"
  shows "\<exists>cfg arts errs. reports t u mc config_path cfg arts errs
    \<and> target = fs_realpath (mc_fs mc) (cfg_report cfg)
    \<and> (\<forall>p \<in> fst ` set arts \<union> fs_realpath (mc_fs mc) ` set (cfg_binaries cfg) \<union> {config_path, mc_checker mc}.
         target \<noteq> p \<and> same_input mc target p = Some False)
    \<and> \<not> artifact_name t (cfg_report cfg) \<and> \<not> artifact_name t target
    \<and> (mc_exists mc target = Some False \<or> mc_exists mc target = Some True \<and> fs_regular (mc_fs mc) target = Inr True \<and> mc_links mc target \<le> 1
         \<and> (\<exists>contents. fs_bytes (mc_fs mc) target = Inr contents
              \<and> \<not> starts_with_any PROTECTED_MAGICS (take 8 contents)))"
  using assms
proof (cases rule: main_cases)
  case (report cfg arts errs target' body' failed errs')
  have ok: "\<not> artifact_name t (cfg_report cfg)" "\<not> artifact_name t target"
    "target \<notin> set (main_inputs mc config_path cfg arts)"
    "\<not> list_ex (\<lambda>p. same_input mc target p \<noteq> Some False) (main_inputs mc config_path cfg arts)"
    "existing_ok mc target"
    using report(3,5) by (auto simp: target_ok_def split: if_splits)
  have "set (main_inputs mc config_path cfg arts) =
      fst ` set arts \<union> fs_realpath (mc_fs mc) ` set (cfg_binaries cfg) \<union> {config_path, mc_checker mc}"
    by (auto simp: main_inputs_def)
  with ok(3,4) have "\<forall>p \<in> fst ` set arts \<union> fs_realpath (mc_fs mc) ` set (cfg_binaries cfg) \<union> {config_path, mc_checker mc}.
         target \<noteq> p \<and> same_input mc target p = Some False"
    by (auto simp: list_ex_iff)
  moreover have "mc_exists mc target = Some False \<or> mc_exists mc target = Some True \<and> fs_regular (mc_fs mc) target = Inr True \<and> mc_links mc target \<le> 1
         \<and> (\<exists>contents. fs_bytes (mc_fs mc) target = Inr contents
              \<and> \<not> starts_with_any PROTECTED_MAGICS (take 8 contents))"
    using ok(5) by (auto simp: existing_ok_def split: sum.splits option.splits bool.splits)
  ultimately show ?thesis using ok(1,2) report(1,2,5) by blast
qed simp


text \<open>A machine with one object, which lacks the instrumentation the configuration asks for.\<close>

definition sample_machine :: machine where
  "sample_machine = \<lparr>mc_fs = sample_fs, mc_readelf = (\<lambda>_. Inr (0, sample_out, [])),
     mc_config = Inr sample_ini, mc_has_readelf = True, mc_checker = Path [47] [[99]],
     mc_exists = (\<lambda>_. Some False), mc_samefile = (\<lambda>p q. Some (p = q)), mc_links = (\<lambda>_. 1), mc_mkdir = (\<lambda>_. True),
     mc_writes = (\<lambda>_. True)\<rparr>"

lemma sample_reports:
  "reports plain_tables plain_unicode sample_machine (Path [47] [text_of ''x.ini'']) sample_config
     [(Path [47] [[111], [120, 46, 111]], ObjectFile)] []"
  using sample_discover
  by (auto simp: reports_def sample_machine_def sample_load)
    (simp add: sample_config_def path_parent_def latin1_def)

lemma sample_run:
  "\<exists>code report. checker_main plain_tables plain_unicode sample_machine (Path [47] [text_of ''x.ini'']) =
     (code, Some (Path [47] [text_of ''build-report.md''], report))"
proof -
  have real: "fs_realpath (mc_fs sample_machine) = (\<lambda>p. p)" "mc_has_readelf sample_machine"
    "mc_config sample_machine = Inr sample_ini" "cfg_report sample_config = Path [47] [text_of ''build-report.md'']"
    by (simp_all add: sample_machine_def sample_fs_def sample_config_def)
  have "\<not> artifact_name plain_tables (Path [47] [text_of ''build-report.md''])"
    by (simp add: artifact_name_def path_suffix_def path_name_def latin1_def re_search_def so_rx_def opt_def)
  then have "target_ok plain_tables sample_machine (main_inputs sample_machine (Path [47] [text_of ''x.ini''])
      sample_config [(Path [47] [[111], [120, 46, 111]], ObjectFile)])
      (Path [47] [text_of ''build-report.md'']) (Path [47] [text_of ''build-report.md''])"
    by (simp add: target_ok_def main_inputs_def sample_machine_def sample_config_def existing_ok_def same_input_def)
      (simp add: latin1_def)
  moreover obtain report failed errs' where "make_report plain_tables (mc_readelf sample_machine) (\<lambda>p. p)
      (Path [47] [text_of ''x.ini'']) (cfg_modes sample_config) (cfg_overrides sample_config)
      [(Path [47] [[111], [120, 46, 111]], ObjectFile)] [] = (report, failed, errs')"
    by (rule prod_cases3)
  moreover have "mc_mkdir sample_machine p" "mc_writes sample_machine p" for p
    by (simp_all add: sample_machine_def)
  ultimately show ?thesis
    using sample_reports by (simp add: checker_main_def real sample_load reports_def)
qed

lemma report_overwrites_no_input_witness:
  "\<not> artifact_name plain_tables (Path [47] [text_of ''build-report.md''])"
proof -
  obtain code report where "checker_main plain_tables plain_unicode sample_machine (Path [47] [text_of ''x.ini'']) =
     (code, Some (Path [47] [text_of ''build-report.md''], report))"
    using sample_run by blast
  from report_overwrites_no_input [OF this] show ?thesis by blast
qed

lemma exit_status_is_verdict_witness:
  "fst (checker_main plain_tables plain_unicode sample_machine (Path [47] [text_of ''x.ini''])) = 1"
proof -
  let ?p = "Path [47] [text_of ''x.ini'']"
  obtain code report where run: "checker_main plain_tables plain_unicode sample_machine ?p =
     (code, Some (Path [47] [text_of ''build-report.md''], report))"
    using sample_run by blast
  let ?arts = "[(Path [47] [[111], [120, 46, 111]], ObjectFile)]"
  have d: "readelf_diagnostic 0 [] = []"
    by (simp add: readelf_diagnostic_def str_strip_def strip_by_def rstrip_by_def)
  obtain name where us: "all_units plain_tables sample_machine ?p ?arts = [(name,
      \<lparr>unit_member = [], unit_evidence = Some sample_evidence, unit_error = [], unit_skipped = []\<rparr>)]"
    by (simp add: all_units_def named_units_def sample_machine_def inspect_def inspect_output_def d
        member_unit_def sample_parse)
  have "clean_run plain_tables plain_unicode sample_machine ?p
      (Some (Path [47] [text_of ''build-report.md''], report)) sample_config ?arts"
    unfolding clean_run_def us using sample_reports by (simp add: sample_machine_def)
  moreover have "\<not> direct_evidence plain_tables (text_of ''asan'') sample_evidence"
    by (simp add: direct_evidence_def sample_evidence_def hit_def check_patterns_def CHECKS_def
        latin1_def re_fullmatch_def)
  then have "\<not> expectation_met plain_tables (mode_of (cfg_modes sample_config) (text_of ''asan''))
      (text_of ''asan'') sample_evidence"
    by (simp add: expectation_met_def mode_of_def sample_config_def)
  moreover have "text_of ''asan'' \<in> set check_names"
    by (simp add: check_names_def CHECKS_def)
  ultimately have "\<exists>cfg arts. clean_run plain_tables plain_unicode sample_machine ?p
      (Some (Path [47] [text_of ''build-report.md''], report)) cfg arts
      \<and> \<not> list_all (item_meets plain_tables cfg) (all_units plain_tables sample_machine ?p arts)"
    by (intro exI [of _ sample_config] exI [of _ ?arts])
      (auto simp: us item_meets_def list_all_iff effective_modes_def sample_config_def)
  with exit_status_is_verdict [OF run] run show ?thesis by simp
qed

end
