(* ===== verification/Spec2Isabelle.thy ===== *)
theory Spec2Isabelle
  imports Corpus Send_Case Server Checker
begin

text \<open>
  A verification library for the Python programs of lighttpd-fuzz, which fuzzes the lighttpd
  web server: \<^verbatim>\<open>normalize-corpus-flags.py\<close> prepares the corpus of the fuzzer,
  \<^verbatim>\<open>backend-responder.py\<close> is the set of back ends the fuzzed server talks to,
  \<^verbatim>\<open>send-test-case.py\<close> replays an input against a running server, and
  \<^verbatim>\<open>build-check/check_build.py\<close> checks that the binaries were built with the
  instrumentation the configuration asks for. The four programs share no Python module; they
  share formats. The packet framing that the corpus tool writes is the one the sender reads
  (theory \<open>Framing\<close>), and the protocols the responder speaks are those of the seed inputs.

  \<^bold>\<open>Theories, in the order they build on each other.\<close>

  \<^item> \<open>Prelude\<close>: bytes (\<open>char list\<close>) and text (lists of code points), the exceptions of the
    sources as values and their sequencing, slices and searches, big-endian integers, masks,
    and the locales \<open>prefix_codec\<close> and \<open>canonical_codec\<close>, the contract of a self-delimiting
    encoding. The framing, HPACK fields, HTTP/2 frames and FastCGI pairs are interpretations.
  \<^item> \<open>Framing\<close>: \<open>valid_multipacket\<close>, \<open>multipacket\<close>, \<open>normalize\<close> of the corpus tool and
    \<open>fuzzer_packets\<close> of the sender.
  \<^item> \<open>Http2\<close>, \<open>Seed_Requests\<close>, \<open>Seeds\<close>: the encoders of HTTP/2 frames, HPACK and WebSocket
    frames, every request constant, and the 291 seed inputs of the corpus tool.
  \<^item> \<open>Corpus\<close>: the corpus tool's \<open>main\<close> over a directory, with writes that may fail at any
    point, paths that cannot be read and a directory that cannot be made; the name of a seed is a parameter (SHA-1 of its contents).
  \<^item> \<open>Sockets\<close>: a socket is what it has still to deliver, in pieces, and what was sent; the
    helpers \<open>_recv_exact\<close>, \<open>_recv_headers\<close>, \<open>_send\<close> of the responder. The locale
    \<open>byte_source\<close> says that reading depends on the bytes and not on the pieces.
  \<^item> \<open>Text\<close>: the methods of \<open>str\<close> and \<open>bytes\<close> and the URL functions the responder uses.
  \<^item> \<open>Modes\<close>: \<open>select_mode\<close> and the response of each of the modes as a plan of writes.
  \<^item> \<open>Http_Handler\<close>, \<open>Fastcgi\<close>, \<open>Scgi\<close>: the three protocol handlers over a socket, each
    refined to a function of the byte stream.
  \<^item> \<open>Server\<close>: \<open>BackendServer\<close>'s acceptor, workers and \<open>stop\<close> as a step relation.
  \<^item> \<open>Send_Case\<close>: the sender's \<open>main\<close>, whole inputs and packet by packet.
  \<^item> \<open>Regex\<close>, \<open>Fnmatch\<close>: Python's regular expressions (the fragment the build checker uses) with
    a backtracking matcher that is sound and complete for their language, and shell patterns.
  \<^item> \<open>Evidence\<close>: the build checker's table of checks, \<open>parse_elf\<close>, \<open>inspect\<close>, \<open>detect\<close> and
    \<open>policy_failed\<close>.
  \<^item> \<open>Config\<close>: paths, the INI syntax of \<open>configparser\<close>, \<open>load_config\<close>, \<open>effective_modes\<close>.
  \<^item> \<open>Discover\<close>, \<open>Report\<close>, \<open>Checker\<close>: \<open>discover\<close>, \<open>make_report\<close> and \<open>main\<close> of the checker.

  \<^bold>\<open>State and errors.\<close> A dict whose order can be seen is an association list, otherwise a map;
  a set whose order cannot be seen is a list without repetition. A raise is the left side of a
  sum, and every handler's early returns are branches. Shared state is threaded explicitly:
  the socket record, the totals of a report, the file system of the corpus tool. The threads
  of the responder are the one place with interleaving, and there a step is one blocking
  operation of one thread.

  \<^bold>\<open>What the lemmas show.\<close> C1 to C4: the framing is exactly what the comments promise, what one
  tool writes the other reads, and \<open>normalize\<close> is idempotent and keeps what can run. C5 to C9:
  the encoders are inverted by decoders written from the protocols, and every seed input can be
  run. C10: the exit status of the build checker is its verdict. C11 to C13: the corpus is never
  left half written. C14 to C18: reading does not depend on how the peer cuts its stream, and
  each mode's response is what the mode promises to a reader of responses. C19 to C27: the
  handlers compute functions of the byte stream, always end, isolate multiplexed requests, and
  read back what a client writes. C28 to C30: every client is in one place, stopping closes all
  clients but possibly one, and ends. C31 and C32: a replay sends the selected packets and
  prints the output without a gap. C33 to C40: the evidence is that of the tables' rows, members
  of an archive are never combined, a policy passes only on evidence, the last override decides,
  a loaded configuration is well formed, no root is passed over in silence, the report counts
  what it judged and never overwrites an input.

  \<^bold>\<open>Bounds and termination.\<close> No definition uses fuel: loops are recursions with a measure (the
  bytes, the pieces or the packets left, the size of a directory tree). The limits of the
  sources (64 packets, 65536 bytes of headers, 1 MiB of a request, a queue of four times
  the workers but at least four, and the others) are the sources' constants.

  \<^bold>\<open>Parameters.\<close> SHA-1; the tables of Unicode beyond Latin-1 (lower case in its context,
  decimal digits, word characters) and \<open>urlsplit\<close>'s verdict on a bracketed or non-ASCII host; what peers send; which
  writes, reads and directories the system refuses; the file system, readelf's output and the existence of
  readelf for the build checker. Concrete values of each are used in the witnesses.

  \<^bold>\<open>Not modelled.\<close> The parsing of command lines by argparse and what is printed; the creation
  of sockets and its errors, signals and the ready file of the responder; decoding of files as
  UTF-8; the C harness, the shell scripts and the server's configurations, which are not Python.
  The tests \<open>is_file\<close> and \<open>is_dir\<close> of a configured root are taken to answer (a directory above
  the root that may not be searched would make them raise, which also ends in exit status 2).
  Two slashes at the front of a path are kept as \<open>pathlib\<close> keeps them, but links are seen only
  through the file system's answers.
\<close>

end
